theory Spec2Isabelle
  imports Main "HOL-Library.Sublist"
begin

section \<open>Text\<close>

text \<open>
  The program is JavaScript that edits a shell profile and emits shell functions. Its
  strings are modelled as lists of Unicode code points. The regular expressions of the
  source have no \<open>u\<close> flag and work on UTF-16 code units; every class they use
  (\<open>\s\<close>, \<open>[^\n]\<close>, \<open>[\s\S]\<close>) treats the two halves of a surrogate pair like
  the code point itself, so the code-point view matches the same ranges.
\<close>

type_synonym ustring = "nat list"

definition str :: "string \<Rightarrow> ustring" where
  "str s = map of_char s"

definition nl :: nat where "nl = 10"
definition lparen :: nat where "lparen = 40"
definition rparen :: nat where "rparen = 41"
definition lbrace :: nat where "lbrace = 123"
definition rbrace :: nat where "rbrace = 125"

text \<open>JavaScript's \<open>\s\<close>, which is also the set \<open>String.prototype.trim\<close> strips:
  white space and line terminators.\<close>

definition is_space :: "nat \<Rightarrow> bool" where
  "is_space c \<longleftrightarrow>
     c = 9 \<or> c = 10 \<or> c = 11 \<or> c = 12 \<or> c = 13 \<or> c = 32 \<or> c = 160 \<or> c = 5760 \<or>
     (8192 \<le> c \<and> c \<le> 8202) \<or> c = 8232 \<or> c = 8233 \<or> c = 8239 \<or> c = 8287 \<or>
     c = 12288 \<or> c = 65279"

text \<open>The positions after which \<open>^\<close> matches under the \<open>m\<close> flag.\<close>

definition is_line_terminator :: "nat \<Rightarrow> bool" where
  "is_line_terminator c \<longleftrightarrow> c = 10 \<or> c = 13 \<or> c = 8232 \<or> c = 8233"

text \<open>\<open>String.prototype.includes\<close>, and \<open>grep -q\<close> with a fixed one-line pattern.\<close>

definition js_includes :: "ustring \<Rightarrow> ustring \<Rightarrow> bool" where
  "js_includes s t = sublist t s"

definition trim :: "ustring \<Rightarrow> ustring" where
  "trim s = rev (dropWhile is_space (rev (dropWhile is_space s)))"

text \<open>\<open>toLowerCase\<close> on the ASCII letters; other code points are left as they are, which
  keeps every code point a white space exactly when it was one.\<close>

definition toLowerCase :: "ustring \<Rightarrow> ustring" where
  "toLowerCase s = map (\<lambda>c. if 65 \<le> c \<and> c \<le> 90 then c + 32 else c) s"

text \<open>\<open>a || b\<close> on strings: the empty string is falsy.\<close>

definition or_else :: "ustring \<Rightarrow> ustring \<Rightarrow> ustring" where
  "or_else a b = (if a = [] then b else a)"

text \<open>Decimal rendering of a number inside a template literal.\<close>

fun dec :: "nat \<Rightarrow> ustring" where
  "dec n = (if n < 10 then [48 + n] else dec (n div 10) @ [48 + n mod 10])"

declare dec.simps [simp del]

definition join_lines :: "ustring list \<Rightarrow> ustring" where
  "join_lines ls = concat (map (\<lambda>l. l @ [nl]) (butlast ls)) @ (if ls = [] then [] else last ls)"

section \<open>Provider catalogue and command construction\<close>

text \<open>The entries of \<open>CLI_INFO\<close>, with the fields the rendered shell command depends on.
  A missing or \<open>null\<close> field is \<open>None\<close>.\<close>

record cli_info =
  cli_id :: ustring
  cli_name :: ustring
  command :: ustring
  headlessFlag :: ustring
  modelFlag :: "ustring option"
  permissionFlag :: "ustring option"
  extraFlags :: "ustring option"

definition claude :: cli_info where
  "claude = \<lparr> cli_id = str ''claude'', cli_name = str ''Claude Code'', command = str ''claude'',
     headlessFlag = str ''--print'', modelFlag = Some (str ''--model''),
     permissionFlag = Some (str ''--dangerously-skip-permissions''), extraFlags = None \<rparr>"

definition gemini :: cli_info where
  "gemini = \<lparr> cli_id = str ''gemini'', cli_name = str ''Gemini CLI'', command = str ''gemini'',
     headlessFlag = str ''--prompt'', modelFlag = Some (str ''--model''),
     permissionFlag = None, extraFlags = None \<rparr>"

definition copilot :: cli_info where
  "copilot = \<lparr> cli_id = str ''copilot'', cli_name = str ''GitHub Copilot CLI'',
     command = str ''copilot'', headlessFlag = str ''--prompt'', modelFlag = None,
     permissionFlag = None, extraFlags = None \<rparr>"

definition opencode :: cli_info where
  "opencode = \<lparr> cli_id = str ''opencode'', cli_name = str ''OpenCode'', command = str ''opencode'',
     headlessFlag = str ''run'', modelFlag = Some (str ''--model''),
     permissionFlag = None, extraFlags = None \<rparr>"

definition aider :: cli_info where
  "aider = \<lparr> cli_id = str ''aider'', cli_name = str ''Aider'', command = str ''aider'',
     headlessFlag = str ''--message'', modelFlag = Some (str ''--model''),
     permissionFlag = None, extraFlags = Some (str ''--yes-always --no-auto-commits'') \<rparr>"

definition CLI_INFO :: "cli_info list" where
  "CLI_INFO = [claude, gemini, copilot, opencode, aider]"

text \<open>The shell variable reference that stands for the prompt: \<open>"$prompt"\<close>.\<close>

definition prompt_ref :: ustring where
  "prompt_ref = [34] @ str ''$prompt'' @ [34]"

text \<open>\<open>buildCLICommand\<close>: a \<open>switch\<close> on the provider id. In the default branch a model
  flag that is \<open>null\<close> or empty is falsy and contributes the empty string.\<close>

definition buildCLICommand :: "cli_info \<Rightarrow> ustring \<Rightarrow> ustring" where
  "buildCLICommand cli model =
    (if cli_id cli = str ''claude'' then
       str ''claude --print --model '' @ model @ str '' --dangerously-skip-permissions '' @ prompt_ref
     else if cli_id cli = str ''gemini'' then
       str ''gemini --prompt '' @ prompt_ref @ str '' --model '' @ model
     else if cli_id cli = str ''copilot'' then
       str ''copilot --prompt '' @ prompt_ref
     else if cli_id cli = str ''opencode'' then
       str ''opencode run '' @ prompt_ref @ str '' --model '' @ model
     else if cli_id cli = str ''aider'' then
       str ''aider --message '' @ prompt_ref @ str '' --model '' @ model @
       str '' --yes-always --no-auto-commits''
     else
       command cli @ str '' '' @ headlessFlag cli @ str '' '' @ prompt_ref @ str '' '' @
       (case modelFlag cli of
          None \<Rightarrow> []
        | Some f \<Rightarrow> if f = [] then [] else f @ str '' '' @ model))"

section \<open>Headless test\<close>

text \<open>What the spawned child did: it closed with captured output and an exit code
  (\<open>null\<close> when a signal ended it), the 60 second timer fired first, or the spawn failed.\<close>

datatype child_outcome =
    Closed ustring ustring "nat option"
  | TimedOut
  | SpawnError ustring

datatype test_result =
    TestSuccess ustring
  | TestFailure ustring

definition code_text :: "nat option \<Rightarrow> ustring" where
  "code_text code = (case code of None \<Rightarrow> str ''null'' | Some n \<Rightarrow> dec n)"

text \<open>The \<open>close\<close> handler of \<open>testHeadlessMode\<close>.\<close>

definition on_close :: "ustring \<Rightarrow> ustring \<Rightarrow> nat option \<Rightarrow> test_result" where
  "on_close stdout stderr code =
    (let combinedOutput = trim (toLowerCase (stdout @ stderr)) in
     if length combinedOutput > 0 then TestSuccess (or_else stdout stderr)
     else if code = Some 0 then TestSuccess (str ''CLI responded successfully'')
     else TestFailure (or_else stderr (str ''CLI exited with code '' @ code_text code)))"

definition testHeadlessMode :: "child_outcome \<Rightarrow> test_result" where
  "testHeadlessMode outcome =
    (case outcome of
       Closed stdout stderr code \<Rightarrow> on_close stdout stderr code
     | TimedOut \<Rightarrow> TestFailure (str ''Command timed out after 60 seconds'')
     | SpawnError message \<Rightarrow> TestFailure message)"

section \<open>File system and shell profile location\<close>

type_synonym path = ustring

datatype fs_error = ENOENT | EACCES

text \<open>The files, with the paths the process may not read and may not write.\<close>

record fsys =
  files :: "path \<rightharpoonup> ustring"
  unreadable :: "path set"
  unwritable :: "path set"

definition readFile :: "fsys \<Rightarrow> path \<Rightarrow> fs_error + ustring" where
  "readFile fs p =
    (case files fs p of
       None \<Rightarrow> Inl ENOENT
     | Some c \<Rightarrow> if p \<in> unreadable fs then Inl EACCES else Inr c)"

definition writeFile :: "fsys \<Rightarrow> path \<Rightarrow> ustring \<Rightarrow> fs_error + fsys" where
  "writeFile fs p c =
    (if p \<in> unwritable fs then Inl EACCES else Inr (fs\<lparr>files := (files fs)(p \<mapsto> c)\<rparr>))"

definition appendFile :: "fsys \<Rightarrow> path \<Rightarrow> ustring \<Rightarrow> fs_error + fsys" where
  "appendFile fs p c =
    (if p \<in> unwritable fs then Inl EACCES
     else Inr (fs\<lparr>files := (files fs)(p \<mapsto> (case files fs p of None \<Rightarrow> c | Some old \<Rightarrow> old @ c))\<rparr>))"

definition copyFile :: "fsys \<Rightarrow> path \<Rightarrow> path \<Rightarrow> fs_error + fsys" where
  "copyFile fs src dst =
    (case readFile fs src of
       Inl e \<Rightarrow> Inl e
     | Inr c \<Rightarrow> writeFile fs dst c)"

text \<open>\<open>fs.access\<close> with the default mode: the file exists.\<close>

definition access :: "fsys \<Rightarrow> path \<Rightarrow> bool" where
  "access fs p \<longleftrightarrow> files fs p \<noteq> None"

text \<open>What the process reads from its environment: \<open>SHELL\<close>, the home directory that
  \<open>os.homedir()\<close> returns (on a POSIX host the value of \<open>HOME\<close> as it is, when set), and
  the clock (\<open>Date.now()\<close> in milliseconds, \<open>new Date().toISOString()\<close>).\<close>

record host =
  shell_var :: "ustring option"
  homedir :: path
  now_ms :: nat
  iso_time :: ustring

datatype shell_kind = Zsh | Bash

text \<open>
  \<open>path.join(dir, name)\<close> of Node on a POSIX host. The arguments that are not empty are
  joined with a separator and the result is normalised: the path is cut into segments at
  the separators, empty segments and \<open>.\<close> are dropped, \<open>..\<close> removes the segment before
  it (at the start of a relative path it stays, at the root it is dropped), and one trailing
  separator is kept.
\<close>

definition slash :: nat where "slash = 47"

text \<open>The segments of a path, \<open>cur\<close> being the segment read so far.\<close>

fun segments_from :: "ustring \<Rightarrow> ustring \<Rightarrow> ustring list" where
  "segments_from cur [] = [cur]"
| "segments_from cur (c # cs) =
    (if c = slash then cur # segments_from [] cs else segments_from (cur @ [c]) cs)"

definition segments :: "ustring \<Rightarrow> ustring list" where
  "segments p = segments_from [] p"

text \<open>\<open>normalizeString\<close>, on segments: \<open>res\<close> holds the segments kept so far.\<close>

fun normalizeString :: "bool \<Rightarrow> ustring list \<Rightarrow> ustring list \<Rightarrow> ustring list" where
  "normalizeString allowAboveRoot res [] = res"
| "normalizeString allowAboveRoot res (s # ss) =
    (if s = [] \<or> s = str ''.'' then normalizeString allowAboveRoot res ss
     else if s = str ''..'' then
       (if res \<noteq> [] \<and> last res \<noteq> str ''..'' then normalizeString allowAboveRoot (butlast res) ss
        else if allowAboveRoot then normalizeString allowAboveRoot (res @ [s]) ss
        else normalizeString allowAboveRoot res ss)
     else normalizeString allowAboveRoot (res @ [s]) ss)"

fun join_segments :: "ustring list \<Rightarrow> ustring" where
  "join_segments [] = []"
| "join_segments [s] = s"
| "join_segments (s # t # ss) = s @ slash # join_segments (t # ss)"

definition normalize_path :: "path \<Rightarrow> path" where
  "normalize_path p =
    (if p = [] then str ''.''
     else
       let isAbsolute = (hd p = slash);
           trailingSeparator = (last p = slash);
           q = join_segments (normalizeString (\<not> isAbsolute) [] (segments p))
       in if q = [] then (if isAbsolute then str ''/'' else if trailingSeparator then str ''./'' else str ''.'')
          else (if isAbsolute then [slash] else []) @ q @ (if trailingSeparator then [slash] else []))"

definition path_join :: "path \<Rightarrow> ustring \<Rightarrow> path" where
  "path_join dir name =
    (if dir = [] \<and> name = [] then str ''.''
     else normalize_path (if dir = [] then name else if name = [] then dir else dir @ slash # name))"

text \<open>A segment that normalisation keeps as it is, and an absolute directory path made of
  such segments, without a trailing separator (\<open>/home/u\<close>).\<close>

definition clean_segment :: "ustring \<Rightarrow> bool" where
  "clean_segment s \<longleftrightarrow> s \<noteq> [] \<and> slash \<notin> set s \<and> s \<noteq> str ''.'' \<and> s \<noteq> str ''..''"

definition plain_dir :: "path \<Rightarrow> bool" where
  "plain_dir d \<longleftrightarrow>
    (case segments d of
       [] \<Rightarrow> False
     | s # ss \<Rightarrow> s = [] \<and> ss \<noteq> [] \<and> list_all clean_segment ss)"

definition detectShellProfile :: "host \<Rightarrow> fsys \<Rightarrow> shell_kind \<times> path" where
  "detectShellProfile h fs =
    (let home = homedir h;
         shell = (case shell_var h of None \<Rightarrow> [] | Some s \<Rightarrow> s)
     in if js_includes shell (str ''zsh'') then (Zsh, path_join home (str ''.zshrc''))
        else
          let bashrc = path_join home (str ''.bashrc'');
              bashProfile = path_join home (str ''.bash_profile'')
          in if access fs bashrc then (Bash, bashrc)
             else if access fs bashProfile then (Bash, bashProfile)
             else (Bash, bashrc))"

section \<open>Regular expressions of the installer\<close>

text \<open>
  The installer builds its patterns with \<open>new RegExp\<close> from the alias name without
  escaping it. The matchers below take the name as literal text, which is what the
  pattern means for a name of letters, digits and underscores (\<open>word_name\<close>). Each
  matcher is applied at one position and returns the text after the match.
\<close>

definition word_char :: "nat \<Rightarrow> bool" where
  "word_char c \<longleftrightarrow> (48 \<le> c \<and> c \<le> 57) \<or> (65 \<le> c \<and> c \<le> 90) \<or> c = 95 \<or> (97 \<le> c \<and> c \<le> 122)"

definition word_name :: "ustring \<Rightarrow> bool" where
  "word_name n \<longleftrightarrow> n \<noteq> [] \<and> list_all word_char n"

definition strip_prefix :: "ustring \<Rightarrow> ustring \<Rightarrow> ustring option" where
  "strip_prefix p s = (if prefix p s then Some (drop (length p) s) else None)"

text \<open>\<open>\s*c\<close> for a character \<open>c\<close> that is not white space.\<close>

definition expect :: "nat \<Rightarrow> ustring \<Rightarrow> ustring option" where
  "expect c s = (case dropWhile is_space s of [] \<Rightarrow> None | d # r \<Rightarrow> if d = c then Some r else None)"

text \<open>\<open>\s*\(\s*\)\s*\{\<close>\<close>

definition fn_open :: "ustring \<Rightarrow> ustring option" where
  "fn_open s = Option.bind (Option.bind (expect lparen s) (expect rparen)) (expect lbrace)"

text \<open>\<open>NAME\s*\(\s*\)\s*\{\<close>\<close>

definition fn_header :: "ustring \<Rightarrow> ustring \<Rightarrow> ustring option" where
  "fn_header name s = Option.bind (strip_prefix name s) fn_open"

text \<open>\<open>[\s\S]*?\n\}\<close>: lazily up to the first line break that a closing brace follows.\<close>

fun lazy_close :: "ustring \<Rightarrow> ustring option" where
  "lazy_close (c # d # r) = (if c = nl \<and> d = rbrace then Some r else lazy_close (d # r))"
| "lazy_close _ = None"

text \<open>\<open>\n?\<close> at the end of a pattern.\<close>

definition opt_nl :: "ustring \<Rightarrow> ustring" where
  "opt_nl s = (case s of [] \<Rightarrow> [] | c # r \<Rightarrow> if c = nl then r else s)"

text \<open>\<open>simplePattern\<close>: \<open>NAME\s*\(\s*\)\s*\{[\s\S]*?\n\}\n?\<close>\<close>

definition simplePattern :: "ustring \<Rightarrow> ustring \<Rightarrow> ustring option" where
  "simplePattern name s = Option.bind (fn_header name s) (\<lambda>r. map_option opt_nl (lazy_close r))"

text \<open>\<open>functionPattern\<close>: \<open># [^\n]*NAME[^\n]*\n\<close> followed by the simple pattern. The
  comment has to run to the end of its line and to hold the name somewhere.\<close>

definition functionPattern :: "ustring \<Rightarrow> ustring \<Rightarrow> ustring option" where
  "functionPattern name s =
    (case strip_prefix (str ''# '') s of
       None \<Rightarrow> None
     | Some r \<Rightarrow>
         (case dropWhile (\<lambda>c. c \<noteq> nl) r of
            [] \<Rightarrow> None
          | _ # next_line \<Rightarrow>
              if sublist name (takeWhile (\<lambda>c. c \<noteq> nl) r) then simplePattern name next_line
              else None))"

text \<open>\<open>content.replace(pattern, '')\<close> with the \<open>g\<close> flag: every match is cut out, the
  search going on where the match ended.\<close>

function replace_all :: "(ustring \<Rightarrow> ustring option) \<Rightarrow> ustring \<Rightarrow> ustring" where
  "replace_all m [] = []"
| "replace_all m (c # cs) =
    (case m (c # cs) of
       None \<Rightarrow> c # replace_all m cs
     | Some r \<Rightarrow> if length r \<le> length cs then replace_all m r else c # replace_all m cs)"
  by pat_completeness auto
termination
  by (relation "measure (\<lambda>(m, s). length s)") auto

text \<open>The same for a pattern that starts with \<open>^\<close> under the \<open>gm\<close> flags: a match may
  start at the beginning of the text and after a line terminator. The flag says whether
  the position is such a start.\<close>

function replace_all_lines :: "(ustring \<Rightarrow> ustring option) \<Rightarrow> bool \<Rightarrow> ustring \<Rightarrow> ustring" where
  "replace_all_lines m b [] = []"
| "replace_all_lines m b (c # cs) =
    (case (if b then m (c # cs) else None) of
       None \<Rightarrow> c # replace_all_lines m (is_line_terminator c) cs
     | Some r \<Rightarrow>
         if length r \<le> length cs
         then replace_all_lines m (is_line_terminator (last (take (Suc (length cs) - length r) (c # cs)))) r
         else c # replace_all_lines m (is_line_terminator c) cs)"
  by pat_completeness auto
termination
  by (relation "measure (\<lambda>(m, b, s). length s)") auto

text \<open>\<open>content.replace(/\n{3,}/g, '\n\n')\<close>\<close>

function collapse_blank :: "ustring \<Rightarrow> ustring" where
  "collapse_blank [] = []"
| "collapse_blank (c # cs) =
    (if c = nl \<and> 3 \<le> length (takeWhile (\<lambda>x. x = nl) (c # cs))
     then nl # nl # collapse_blank (dropWhile (\<lambda>x. x = nl) cs)
     else c # collapse_blank cs)"
  by pat_completeness auto
termination
  by (relation "measure length") (auto simp: le_imp_less_Suc length_dropWhile_le)

text \<open>\<open>pattern.test(content)\<close> for a pattern that starts with \<open>^\<close> under the \<open>m\<close> flag,
  and the number of line starts at which the pattern matches.\<close>

fun line_start_matches :: "(ustring \<Rightarrow> ustring option) \<Rightarrow> bool \<Rightarrow> ustring \<Rightarrow> nat" where
  "line_start_matches m b [] = (if b \<and> m [] \<noteq> None then 1 else 0)"
| "line_start_matches m b (c # cs) =
    (if b \<and> m (c # cs) \<noteq> None then 1 else 0) + line_start_matches m (is_line_terminator c) cs"

definition test_lines :: "(ustring \<Rightarrow> ustring option) \<Rightarrow> ustring \<Rightarrow> bool" where
  "test_lines m content \<longleftrightarrow> 0 < line_start_matches m True content"

section \<open>Emitted shell functions\<close>

text \<open>
  \<open>generateGpAlias\<close> and \<open>generateGcAlias\<close> return the text of a shell function: two
  comment lines, the line \<open>NAME() {\<close>, the body and a closing brace on a line of its own.
  The text is kept as its list of lines; the escapes of the JavaScript template literal
  (\<open>\\\<close>, \<open>\$\<close>) are resolved, and characters outside ASCII are given by code point.
\<close>

definition rule51 :: ustring where
  "rule51 = replicate 51 9473"

definition gp_comment :: "ustring \<Rightarrow> cli_info \<Rightarrow> ustring \<Rightarrow> ustring list" where
  \<open>gp_comment aliasName cli model =
    [str ''# Git Push with AI Commit Message ('' @ aliasName @ str '' alias)'',
     str ''# Provider: '' @ cli_name cli @ str '' | Model: '' @ model]\<close>

definition gp_body :: "cli_info \<Rightarrow> ustring \<Rightarrow> ustring list" where
  \<open>gp_body cli cliCommand =
    [str ''    local GREEN=$'' @ [39, 92] @ str ''033[0;32m'' @ [39],
     str ''    local YELLOW=$'' @ [39, 92] @ str ''033[1;33m'' @ [39],
     str ''    local BLUE=$'' @ [39, 92] @ str ''033[0;34m'' @ [39],
     str ''    local RED=$'' @ [39, 92] @ str ''033[0;31m'' @ [39],
     str ''    local NC=$'' @ [39, 92] @ str ''033[0m'' @ [39],
     str ''    local BOLD=$'' @ [39, 92] @ str ''033[1m'' @ [39],
     str ''    local DIM=$'' @ [39, 92] @ str ''033[2m'' @ [39],
     str ''    '',
     str ''    local review_mode=false'',
     str ''    local user_message=""'',
     str ''    '',
     str ''    if [[ "$1" == "-r" ]]; then'',
     str ''        review_mode=true'',
     str ''        shift'',
     str ''        user_message="$*"'',
     str ''    else'',
     str ''        user_message="$*"'',
     str ''    fi'',
     [],
     str ''    if ! command -v git &> /dev/null; then'',
     str ''        echo "${RED}Error:${NC} git is not installed"'',
     str ''        return 1'',
     str ''    fi'',
     [],
     str ''    if ! git rev-parse --is-inside-work-tree > /dev/null 2>&1; then'',
     str ''        echo "${RED}Error:${NC} Not a git repository"'',
     str ''        return 1'',
     str ''    fi'',
     [],
     str ''    if git ls-files -u | grep -q .; then'',
     str ''        echo "${RED}Error:${NC} Unresolved merge conflicts"'',
     str ''        return 1'',
     str ''    fi'',
     [],
     str ''    local current_branch=$(git branch --show-current 2>/dev/null)'',
     str ''    if [ -z "$current_branch" ]; then'',
     str ''        echo "${RED}Error:${NC} Detached HEAD state"'',
     str ''        return 1'',
     str ''    fi'',
     [],
     str ''    local has_staged=false'',
     str ''    local has_unstaged=false'',
     str ''    local has_untracked=false'',
     str ''    '',
     str ''    ! git diff --cached --quiet && has_staged=true'',
     str ''    ! git diff --quiet && has_unstaged=true'',
     str ''    [ -n "$(git ls-files --others --exclude-standard 2>/dev/null)" ] && has_untracked=true'',
     [],
     str ''    if [ "$has_staged" = false ] && [ "$has_unstaged" = false ] && [ "$has_untracked" = false ]; then'',
     str ''        echo "${YELLOW}Nothing to commit${NC} - working tree clean"'',
     str ''        local unpushed=$(git log @'' @ str ''{u}.. --oneline 2>/dev/null | wc -l | tr -d '' @ [39] @ str '' '' @ [39] @ str '')'',
     str ''        if [ "$unpushed" -gt 0 ] 2>/dev/null; then'',
     str ''            echo "${DIM}You have ${unpushed} unpushed commit(s)${NC}"'',
     str ''            echo -n "${YELLOW}Push existing commits? [Y/n]:${NC} "'',
     str ''            read push_only'',
     str ''            if [[ ! "$push_only" =~ ^[nN] ]]; then'',
     str ''                git push origin "$current_branch" 2>&1 && echo "${GREEN}'' @ [10003] @ str '' Pushed${NC}"'',
     str ''            fi'',
     str ''        fi'',
     str ''        return 0'',
     str ''    fi'',
     [],
     str ''    if ! git remote get-url origin > /dev/null 2>&1; then'',
     str ''        echo "${YELLOW}Warning:${NC} No remote '' @ [39] @ str ''origin'' @ [39] @ str '' configured"'',
     str ''        local skip_push=true'',
     str ''    else'',
     str ''        local skip_push=false'',
     str ''    fi'',
     [],
     str ''    echo "${BOLD}${BLUE}'' @ rule51 @ str ''${NC}"'',
     str ''    echo "${BOLD}'' @ [128640] @ str '' Git Push with AI Commit Message${NC}"'',
     str ''    echo "${BOLD}${BLUE}'' @ rule51 @ str ''${NC}"'',
     [],
     str ''    local commit_message=""'',
     str ''    '',
     str ''    if [ -n "$user_message" ]; then'',
     str ''        echo ""'',
     str ''        echo "${GREEN}'' @ [10003] @ str ''${NC} Using provided commit message"'',
     str ''        commit_message="$user_message"'',
     str ''    else'',
     str ''        if ! command -v '' @ command cli @ str '' &> /dev/null; then'',
     str ''            echo "${RED}Error:${NC} '' @ cli_name cli @ str '' is not installed"'',
     str ''            return 1'',
     str ''        fi'',
     [],
     str ''        echo ""'',
     str ''        echo "${YELLOW}[1/4]${NC} '' @ [128269] @ str '' Analyzing git changes..."'',
     str ''    '',
     str ''        local staged_diff=$(git diff --cached 2>/dev/null | head -500)'',
     str ''        local unstaged_diff=$(git diff 2>/dev/null | head -500)'',
     str ''        local untracked_files=$(git ls-files --others --exclude-standard 2>/dev/null | head -50)'',
     str ''    '',
     str ''        local prompt="Analyze the following git changes and generate a commit message following the Conventional Commits specification with bullet-point changelog style.'',
     [],
     str ''## Commit Message Format:'',
     str ''<type>(<scope>): <short summary>'',
     [],
     str ''- <bullet point describing a specific change>'',
     str ''- <bullet point describing another change>'',
     [],
     str ''## Types: feat, fix, docs, style, refactor, perf, test, build, ci, chore, revert'',
     [],
     str ''## Rules:'',
     str ''1. Subject line: max 50 chars, imperative mood, no period'',
     str ''2. Body uses bullet points (- ) to list specific changes'',
     str ''3. Each bullet should be concise and actionable'',
     [],
     str ''## Git Changes:'',
     [],
     str ''### Staged Changes:'',
     str ''${staged_diff:-'' @ [92] @ str ''"(none)'' @ [92] @ str ''"}'',
     [],
     str ''### Unstaged Changes:'',
     str ''${unstaged_diff:-'' @ [92] @ str ''"(none)'' @ [92] @ str ''"}'',
     [],
     str ''### Untracked Files:'',
     str ''${untracked_files:-'' @ [92] @ str ''"(none)'' @ [92] @ str ''"}'',
     [],
     str ''OUTPUT ONLY THE COMMIT MESSAGE, nothing else."'',
     [],
     str ''        echo "${YELLOW}[2/4]${NC} '' @ [129302] @ str '' Generating commit message with '' @ cli_name cli @ str ''..."'',
     str ''        echo "${DIM}     (this may take a few seconds...)${NC}"'',
     str ''    '',
     str ''        local temp_file=$(mktemp)'',
     str ''        local error_file=$(mktemp)'',
     str ''    '',
     str ''        '' @ cliCommand @ str '' > "$temp_file" 2> "$error_file"'',
     str ''        local exit_code=$?'',
     str ''    '',
     str ''        if [ $exit_code -ne 0 ] || [ ! -s "$temp_file" ]; then'',
     str ''            echo "${RED}Error:${NC} Failed to generate commit message"'',
     str ''            cat "$error_file" 2>/dev/null'',
     str ''            rm -f "$temp_file" "$error_file"'',
     str ''            return 1'',
     str ''        fi'',
     str ''    '',
     str ''        commit_message=$(cat "$temp_file")'',
     str ''        rm -f "$temp_file" "$error_file"'',
     str ''    '',
     str ''        echo ""'',
     str ''        echo "${GREEN}Generated Commit Message:${NC}"'',
     str ''        echo "$commit_message"'',
     str ''    '',
     str ''        if [ "$review_mode" = true ]; then'',
     str ''            echo ""'',
     str ''            echo -n "${YELLOW}Proceed with this commit message? [Y/n/e(dit)]:${NC} "'',
     str ''            read confirm'',
     str ''    '',
     str ''            case "$confirm" in'',
     str ''                [nN]) echo "${YELLOW}Aborted.${NC}"; return 0 ;;'',
     str ''                [eE])'',
     str ''                    local edit_file=$(mktemp)'',
     str ''                    echo "$commit_message" > "$edit_file"'',
     str ''                    ${EDITOR:-vim} "$edit_file"'',
     str ''                    commit_message=$(cat "$edit_file")'',
     str ''                    rm -f "$edit_file"'',
     str ''                    ;;'',
     str ''            esac'',
     str ''        fi'',
     str ''    fi'',
     [],
     str ''    echo ""'',
     str ''    echo "${YELLOW}[3/4]${NC} '' @ [128230] @ str '' Staging and committing changes..."'',
     str ''    '',
     str ''    git add -A'',
     str ''    '',
     str ''    if git diff --cached --quiet; then'',
     str ''        echo "${YELLOW}Nothing to commit${NC}"'',
     str ''        return 0'',
     str ''    fi'',
     str ''    '',
     str ''    if ! git commit -m "$commit_message" 2>&1; then'',
     str ''        echo "${RED}Error:${NC} Failed to commit"'',
     str ''        return 1'',
     str ''    fi'',
     str ''    '',
     str ''    echo "${GREEN}'' @ [10003] @ str ''${NC} Changes committed"'',
     [],
     str ''    if [ "$skip_push" = true ]; then'',
     str ''        echo "${YELLOW}Skipping push${NC} - no remote"'',
     str ''        echo "${BOLD}${GREEN}'' @ [10024] @ str '' Done!${NC}"'',
     str ''        return 0'',
     str ''    fi'',
     [],
     str ''    echo ""'',
     str ''    echo "${YELLOW}[4/4]${NC} '' @ [128640] @ str '' Pushing to remote..."'',
     str ''    '',
     str ''    local push_output'',
     str ''    push_output=$(git push origin "$current_branch" 2>&1)'',
     str ''    local push_exit=$?'',
     str ''    '',
     str ''    if [ $push_exit -eq 0 ]; then'',
     str ''        echo "${GREEN}'' @ [10003] @ str '' Pushed to origin/$current_branch${NC}"'',
     str ''        local mr_url=$(echo "$push_output" | grep -oE '' @ [39] @ str ''https?://[^ ]+'' @ [39] @ str '' | grep -iE '' @ [39] @ str ''(merge|pull)'' @ [39] @ str '' | head -1)'',
     str ''        if [ -n "$mr_url" ]; then'',
     str ''            echo ""'',
     str ''            echo "${BLUE}'' @ [128206] @ str '' Create Merge Request:${NC}"'',
     str ''            echo "   ${BOLD}$mr_url${NC}"'',
     str ''        fi'',
     str ''    else'',
     str ''        if echo "$push_output" | grep -q "no upstream"; then'',
     str ''            git push --set-upstream origin "$current_branch" 2>&1 && echo "${GREEN}'' @ [10003] @ str '' Pushed${NC}"'',
     str ''        else'',
     str ''            echo "${RED}Error:${NC} Push failed"'',
     str ''            echo "${DIM}$push_output${NC}"'',
     str ''            return 1'',
     str ''        fi'',
     str ''    fi'',
     [],
     str ''    echo ""'',
     str ''    echo "${BOLD}${GREEN}'' @ rule51 @ str ''${NC}"'',
     str ''    echo "${BOLD}${GREEN}'' @ [10024] @ str '' Done!${NC}"'',
     str ''    echo "${BOLD}${GREEN}'' @ rule51 @ str ''${NC}"'']\<close>

definition gc_comment :: "ustring \<Rightarrow> cli_info \<Rightarrow> ustring \<Rightarrow> ustring list" where
  \<open>gc_comment aliasName cli model =
    [str ''# Git Commit with AI Message ('' @ aliasName @ str '' alias)'',
     str ''# Provider: '' @ cli_name cli @ str '' | Model: '' @ model]\<close>

definition gc_body :: "cli_info \<Rightarrow> ustring \<Rightarrow> ustring list" where
  \<open>gc_body cli cliCommand =
    [str ''    local GREEN=$'' @ [39, 92] @ str ''033[0;32m'' @ [39],
     str ''    local YELLOW=$'' @ [39, 92] @ str ''033[1;33m'' @ [39],
     str ''    local BLUE=$'' @ [39, 92] @ str ''033[0;34m'' @ [39],
     str ''    local RED=$'' @ [39, 92] @ str ''033[0;31m'' @ [39],
     str ''    local NC=$'' @ [39, 92] @ str ''033[0m'' @ [39],
     str ''    local BOLD=$'' @ [39, 92] @ str ''033[1m'' @ [39],
     str ''    local DIM=$'' @ [39, 92] @ str ''033[2m'' @ [39],
     str ''    '',
     str ''    local review_mode=false'',
     str ''    local user_message=""'',
     str ''    '',
     str ''    if [[ "$1" == "-r" ]]; then'',
     str ''        review_mode=true'',
     str ''        shift'',
     str ''        user_message="$*"'',
     str ''    else'',
     str ''        user_message="$*"'',
     str ''    fi'',
     [],
     str ''    if ! command -v git &> /dev/null; then'',
     str ''        echo "${RED}Error:${NC} git is not installed"'',
     str ''        return 1'',
     str ''    fi'',
     [],
     str ''    if ! git rev-parse --is-inside-work-tree > /dev/null 2>&1; then'',
     str ''        echo "${RED}Error:${NC} Not a git repository"'',
     str ''        return 1'',
     str ''    fi'',
     [],
     str ''    if git diff --cached --quiet; then'',
     str ''        echo "${YELLOW}Nothing to commit${NC} - no staged changes"'',
     str ''        echo "${DIM}Stage changes first: git add <files>${NC}"'',
     str ''        return 0'',
     str ''    fi'',
     [],
     str ''    echo "${BOLD}${BLUE}'' @ rule51 @ str ''${NC}"'',
     str ''    echo "${BOLD}'' @ [128221] @ str '' Git Commit with AI Message${NC}"'',
     str ''    echo "${BOLD}${BLUE}'' @ rule51 @ str ''${NC}"'',
     [],
     str ''    local commit_message=""'',
     str ''    '',
     str ''    if [ -n "$user_message" ]; then'',
     str ''        echo ""'',
     str ''        echo "${GREEN}'' @ [10003] @ str ''${NC} Using provided commit message"'',
     str ''        commit_message="$user_message"'',
     str ''    else'',
     str ''        if ! command -v '' @ command cli @ str '' &> /dev/null; then'',
     str ''            echo "${RED}Error:${NC} '' @ cli_name cli @ str '' is not installed"'',
     str ''            return 1'',
     str ''        fi'',
     [],
     str ''        echo ""'',
     str ''        echo "${YELLOW}[1/2]${NC} '' @ [128269] @ str '' Analyzing staged changes..."'',
     str ''    '',
     str ''        local staged_diff=$(git diff --cached 2>/dev/null | head -500)'',
     str ''    '',
     str ''        local prompt="Analyze the following staged git changes and generate a commit message following the Conventional Commits specification with bullet-point changelog style.'',
     [],
     str ''## Commit Message Format:'',
     str ''<type>(<scope>): <short summary>'',
     [],
     str ''- <bullet point describing a specific change>'',
     str ''- <bullet point describing another change>'',
     [],
     str ''## Types: feat, fix, docs, style, refactor, perf, test, build, ci, chore, revert'',
     [],
     str ''## Rules:'',
     str ''1. Subject line: max 50 chars, imperative mood, no period'',
     str ''2. Body uses bullet points (- ) to list specific changes'',
     str ''3. Each bullet should be concise and actionable'',
     [],
     str ''## Staged Changes:'',
     str ''${staged_diff}'',
     [],
     str ''OUTPUT ONLY THE COMMIT MESSAGE, nothing else."'',
     [],
     str ''        echo "${YELLOW}[2/2]${NC} '' @ [129302] @ str '' Generating commit message with '' @ cli_name cli @ str ''..."'',
     str ''        echo "${DIM}     (this may take a few seconds...)${NC}"'',
     str ''    '',
     str ''        local temp_file=$(mktemp)'',
     str ''        local error_file=$(mktemp)'',
     str ''    '',
     str ''        '' @ cliCommand @ str '' > "$temp_file" 2> "$error_file"'',
     str ''        local exit_code=$?'',
     str ''    '',
     str ''        if [ $exit_code -ne 0 ] || [ ! -s "$temp_file" ]; then'',
     str ''            echo "${RED}Error:${NC} Failed to generate commit message"'',
     str ''            cat "$error_file" 2>/dev/null'',
     str ''            rm -f "$temp_file" "$error_file"'',
     str ''            return 1'',
     str ''        fi'',
     str ''    '',
     str ''        commit_message=$(cat "$temp_file")'',
     str ''        rm -f "$temp_file" "$error_file"'',
     str ''    '',
     str ''        echo ""'',
     str ''        echo "${GREEN}Generated Commit Message:${NC}"'',
     str ''        echo "$commit_message"'',
     str ''    '',
     str ''        if [ "$review_mode" = true ]; then'',
     str ''            echo ""'',
     str ''            echo -n "${YELLOW}Proceed with this commit message? [Y/n/e(dit)]:${NC} "'',
     str ''            read confirm'',
     str ''    '',
     str ''            case "$confirm" in'',
     str ''                [nN]) echo "${YELLOW}Aborted.${NC}"; return 0 ;;'',
     str ''                [eE])'',
     str ''                    local edit_file=$(mktemp)'',
     str ''                    echo "$commit_message" > "$edit_file"'',
     str ''                    ${EDITOR:-vim} "$edit_file"'',
     str ''                    commit_message=$(cat "$edit_file")'',
     str ''                    rm -f "$edit_file"'',
     str ''                    ;;'',
     str ''            esac'',
     str ''        fi'',
     str ''    fi'',
     [],
     str ''    echo ""'',
     str ''    echo "${YELLOW}'' @ [128230] @ str '' Committing...${NC}"'',
     str ''    '',
     str ''    if ! git commit -m "$commit_message" 2>&1; then'',
     str ''        echo "${RED}Error:${NC} Failed to commit"'',
     str ''        return 1'',
     str ''    fi'',
     [],
     str ''    echo ""'',
     str ''    echo "${BOLD}${GREEN}'' @ rule51 @ str ''${NC}"'',
     str ''    echo "${BOLD}${GREEN}'' @ [10024] @ str '' Done!${NC}"'',
     str ''    echo "${BOLD}${GREEN}'' @ rule51 @ str ''${NC}"'']\<close>

definition generateGpAlias :: "ustring \<Rightarrow> cli_info \<Rightarrow> ustring \<Rightarrow> ustring" where
  "generateGpAlias aliasName cli model =
    join_lines (gp_comment aliasName cli model @ [aliasName @ str ''() {''] @
                gp_body cli (buildCLICommand cli model) @ [str ''}''])"

definition generateGcAlias :: "ustring \<Rightarrow> cli_info \<Rightarrow> ustring \<Rightarrow> ustring" where
  "generateGcAlias aliasName cli model =
    join_lines (gc_comment aliasName cli model @ [aliasName @ str ''() {''] @
                gc_body cli (buildCLICommand cli model) @ [str ''}''])"

section \<open>Installer\<close>

definition backupProfile :: "host \<Rightarrow> fsys \<Rightarrow> path \<Rightarrow> path option \<times> fsys" where
  "backupProfile h fs profilePath =
    (let backupPath = profilePath @ str ''.backup.'' @ dec (now_ms h) in
     case copyFile fs profilePath backupPath of
       Inl e \<Rightarrow> (None, fs)
     | Inr fs' \<Rightarrow> (Some backupPath, fs'))"

text \<open>\<open>aliasExists\<close> tests \<open>^NAME\s*\(\s*\)\s*\{\<close> under the \<open>m\<close> flag. As for every
  pattern of the installer, the name is matched as literal text, which is the meaning of the
  pattern only for a name of letters, digits and underscores: the properties below are
  stated for such names (\<open>word_name\<close>).\<close>

definition aliasExists :: "fsys \<Rightarrow> path \<Rightarrow> ustring \<Rightarrow> bool" where
  "aliasExists fs profilePath aliasName =
    (case readFile fs profilePath of
       Inl e \<Rightarrow> False
     | Inr content \<Rightarrow> test_lines (fn_header aliasName) content)"

text \<open>The three replacements of \<open>removeExistingAlias\<close> on the content it read.\<close>

definition remove_blocks :: "ustring \<Rightarrow> ustring \<Rightarrow> ustring" where
  "remove_blocks aliasName content =
    collapse_blank (replace_all (simplePattern aliasName) (replace_all (functionPattern aliasName) content))"

definition removeExistingAlias :: "fsys \<Rightarrow> path \<Rightarrow> ustring \<Rightarrow> bool \<times> fsys" where
  "removeExistingAlias fs profilePath aliasName =
    (case readFile fs profilePath of
       Inl e \<Rightarrow> (False, fs)
     | Inr content \<Rightarrow>
         (case writeFile fs profilePath (remove_blocks aliasName content) of
            Inl e \<Rightarrow> (False, fs)
          | Inr fs' \<Rightarrow> (True, fs')))"

datatype install_result =
    Installed shell_kind path
  | Conflict "ustring list" path
  | Failed fs_error

text \<open>The block \<open>installAliases\<close> appends.\<close>

definition aliasContent :: "ustring \<Rightarrow> ustring \<Rightarrow> cli_info \<Rightarrow> ustring \<Rightarrow> ustring \<Rightarrow> ustring" where
  "aliasContent gpAlias gcAlias cli model timestamp =
    join_lines
      [[],
       str ''# '' @ rule51,
       str ''# AI Git Aliases - Added by @lvmk/git-alias'',
       str ''# Provider: '' @ cli_name cli @ str '' | Model: '' @ model,
       str ''# Generated: '' @ timestamp,
       str ''# '' @ rule51,
       [],
       generateGpAlias gpAlias cli model,
       [],
       generateGcAlias gcAlias cli model,
       []]"

definition installAliases ::
  "host \<Rightarrow> fsys \<Rightarrow> ustring \<Rightarrow> ustring \<Rightarrow> cli_info \<Rightarrow> ustring \<Rightarrow> bool \<Rightarrow> install_result \<times> fsys" where
  "installAliases h fs gpAlias gcAlias cli model overwrite =
    (let (shell, profile) = detectShellProfile h fs;
         gpExists = aliasExists fs profile gpAlias;
         gcExists = aliasExists fs profile gcAlias
     in if (gpExists \<or> gcExists) \<and> \<not> overwrite then
          (Conflict ((if gpExists then [gpAlias] else []) @ (if gcExists then [gcAlias] else [])) profile, fs)
        else
          let fs1 = (if overwrite \<and> gpExists then snd (removeExistingAlias fs profile gpAlias) else fs);
              fs2 = (if overwrite \<and> gcExists then snd (removeExistingAlias fs1 profile gcAlias) else fs1);
              fs3 = snd (backupProfile h fs2 profile)
          in case appendFile fs3 profile (aliasContent gpAlias gcAlias cli model (iso_time h)) of
               Inl e \<Rightarrow> (Failed e, fs3)
             | Inr fs4 \<Rightarrow> (Installed shell profile, fs4))"

section \<open>Reload alias\<close>

text \<open>\<open>^alias\s+NAME=\<close>, matched at a line start.\<close>

definition alias_line :: "ustring \<Rightarrow> ustring \<Rightarrow> ustring option" where
  "alias_line name s =
    (case strip_prefix (str ''alias'') s of
       None \<Rightarrow> None
     | Some r \<Rightarrow>
         (case r of
            [] \<Rightarrow> None
          | c # r' \<Rightarrow> if is_space c then strip_prefix (name @ str ''='') (dropWhile is_space r') else None))"

text \<open>\<open>^alias\s+NAME=[^\n]*\n?\<close>\<close>

definition alias_line_rest :: "ustring \<Rightarrow> ustring \<Rightarrow> ustring option" where
  "alias_line_rest name s = map_option (\<lambda>r. opt_nl (dropWhile (\<lambda>c. c \<noteq> nl) r)) (alias_line name s)"

definition reload_aliasExists :: "fsys \<Rightarrow> path \<Rightarrow> ustring \<Rightarrow> bool" where
  "reload_aliasExists fs profilePath aliasName =
    (case readFile fs profilePath of
       Inl e \<Rightarrow> False
     | Inr content \<Rightarrow> test_lines (alias_line aliasName) content \<or> test_lines (fn_header aliasName) content)"

definition remove_alias_lines :: "ustring \<Rightarrow> ustring \<Rightarrow> ustring" where
  "remove_alias_lines aliasName content =
    collapse_blank (replace_all_lines (alias_line_rest aliasName) True content)"

definition reload_removeExistingAlias :: "fsys \<Rightarrow> path \<Rightarrow> ustring \<Rightarrow> bool \<times> fsys" where
  "reload_removeExistingAlias fs profilePath aliasName =
    (case readFile fs profilePath of
       Inl e \<Rightarrow> (False, fs)
     | Inr content \<Rightarrow>
         (case writeFile fs profilePath (remove_alias_lines aliasName content) of
            Inl e \<Rightarrow> (False, fs)
          | Inr fs' \<Rightarrow> (True, fs')))"

definition reloadContent :: "ustring \<Rightarrow> path \<Rightarrow> ustring \<Rightarrow> ustring" where
  "reloadContent aliasName profile timestamp =
    join_lines
      [[],
       str ''# '' @ rule51,
       str ''# Shell Reload Alias - Added by @lvmk/quick-alias'',
       str ''# Generated: '' @ timestamp,
       str ''# '' @ rule51,
       str ''alias '' @ aliasName @ str ''='' @ [34] @ str ''source '' @ profile @ [34],
       []]"

datatype reload_result =
    ReloadInstalled shell_kind path
  | ReloadConflict path
  | ReloadFailed fs_error

definition installReloadAlias :: "host \<Rightarrow> fsys \<Rightarrow> ustring \<Rightarrow> bool \<Rightarrow> reload_result \<times> fsys" where
  "installReloadAlias h fs aliasName overwrite =
    (let (shell, profile) = detectShellProfile h fs;
         exists = reload_aliasExists fs profile aliasName
     in if exists \<and> \<not> overwrite then (ReloadConflict profile, fs)
        else
          let fs1 = (if exists \<and> overwrite then snd (reload_removeExistingAlias fs profile aliasName) else fs)
          in case appendFile fs1 profile (reloadContent aliasName profile (iso_time h)) of
               Inl e \<Rightarrow> (ReloadFailed e, fs1)
             | Inr fs2 \<Rightarrow> (ReloadInstalled shell profile, fs2))"

section \<open>Run-time behaviour of the emitted functions\<close>

text \<open>
  The emitted text is a shell function. Its behaviour is modelled as a function from
  what the commands it calls answer (the \<open>world\<close>) to what it prints and runs, in
  order, and its exit status. A command that only reads (\<open>git diff\<close>, \<open>git rev-parse\<close>,
  \<open>command -v\<close>) is a field of the world; a command that acts is an event.
\<close>

record world =
  argv :: "ustring list"
  git_installed :: bool
  inside_work_tree :: bool
  unmerged :: "ustring list"
  current_branch :: ustring
  has_staged :: bool
  has_unstaged :: bool
  staged_diff :: "ustring list"
  unstaged_diff :: "ustring list"
  untracked :: "ustring list"
  unpushed :: nat
  push_only_reply :: ustring
  origin_configured :: bool
  provider_installed :: bool
  provider_exit :: nat
  provider_stdout :: ustring
  provider_stderr :: ustring
  confirm_reply :: ustring
  edited :: ustring
  staged_after_add :: bool
  commit_succeeds :: bool
  push_exit :: nat
  push_output :: "ustring list"
  upstream_push_succeeds :: bool

datatype event =
    Echo ustring
  | EchoN ustring
  | Cat ustring
  | GitPush ustring
  | GitPushSetUpstream ustring
  | GitAddAll
  | GitCommit ustring
  | RunProvider ustring ustring
  | Editor ustring

type_synonym run = "event list \<times> nat"

definition GREEN :: ustring where "GREEN = 27 # str ''[0;32m''"
definition YELLOW :: ustring where "YELLOW = 27 # str ''[1;33m''"
definition BLUE :: ustring where "BLUE = 27 # str ''[0;34m''"
definition RED :: ustring where "RED = 27 # str ''[0;31m''"
definition NC :: ustring where "NC = 27 # str ''[0m''"
definition BOLD :: ustring where "BOLD = 27 # str ''[1m''"
definition DIM :: ustring where "DIM = 27 # str ''[2m''"

text \<open>\<open>head -n\<close> on the lines of a command's output.\<close>

definition head :: "nat \<Rightarrow> ustring list \<Rightarrow> ustring list" where
  "head n ls = take n ls"

text \<open>\<open>$(command)\<close>: the output without its trailing line breaks.\<close>

definition subst_lines :: "ustring list \<Rightarrow> ustring" where
  "subst_lines ls = join_lines (rev (dropWhile (\<lambda>l. l = []) (rev ls)))"

definition subst_text :: "ustring \<Rightarrow> ustring" where
  "subst_text t = rev (dropWhile (\<lambda>c. c = nl) (rev t))"

text \<open>\<open>"$*"\<close>: the arguments joined by spaces.\<close>

fun join_words :: "ustring list \<Rightarrow> ustring" where
  "join_words [] = []"
| "join_words [a] = a"
| "join_words (a # b # r) = a @ 32 # join_words (b # r)"

text \<open>Init: a leading \<open>-r\<close> selects review mode; the other arguments are the message.\<close>

definition parse_args :: "ustring list \<Rightarrow> bool \<times> ustring" where
  "parse_args args =
    (case args of
       [] \<Rightarrow> (False, [])
     | a # rest \<Rightarrow> if a = str ''-r'' then (True, join_words rest) else (False, join_words args))"

text \<open>\<open>${var:-"(none)"}\<close>\<close>

definition or_none :: "ustring \<Rightarrow> ustring" where
  "or_none v = (if v = [] then [34] @ str ''(none)'' @ [34] else v)"

definition prompt_rules :: "ustring list" where
  \<open>prompt_rules =
    [[],
     str ''## Commit Message Format:'',
     str ''<type>(<scope>): <short summary>'',
     [],
     str ''- <bullet point describing a specific change>'',
     str ''- <bullet point describing another change>'',
     [],
     str ''## Types: feat, fix, docs, style, refactor, perf, test, build, ci, chore, revert'',
     [],
     str ''## Rules:'',
     str ''1. Subject line: max 50 chars, imperative mood, no period'',
     str ''2. Body uses bullet points (- ) to list specific changes'',
     str ''3. Each bullet should be concise and actionable'',
     []]\<close>

definition gp_prompt :: "ustring \<Rightarrow> ustring \<Rightarrow> ustring \<Rightarrow> ustring" where
  \<open>gp_prompt staged unstaged untracked_files =
    join_lines
      ([str ''Analyze the following git changes and generate a commit message following the Conventional Commits specification with bullet-point changelog style.''] @
       prompt_rules @
       [str ''## Git Changes:'',
        [],
        str ''### Staged Changes:'',
        or_none staged,
        [],
        str ''### Unstaged Changes:'',
        or_none unstaged,
        [],
        str ''### Untracked Files:'',
        or_none untracked_files,
        [],
        str ''OUTPUT ONLY THE COMMIT MESSAGE, nothing else.''])\<close>

definition gc_prompt :: "ustring \<Rightarrow> ustring" where
  \<open>gc_prompt staged =
    join_lines
      ([str ''Analyze the following staged git changes and generate a commit message following the Conventional Commits specification with bullet-point changelog style.''] @
       prompt_rules @
       [str ''## Staged Changes:'',
        staged,
        [],
        str ''OUTPUT ONLY THE COMMIT MESSAGE, nothing else.''])\<close>

text \<open>What the push variant collects for the prompt: the three \<open>head\<close> pipelines.\<close>

definition gp_collect :: "world \<Rightarrow> ustring \<times> ustring \<times> ustring" where
  "gp_collect w =
    (subst_lines (head 500 (staged_diff w)),
     subst_lines (head 500 (unstaged_diff w)),
     subst_lines (head 50 (untracked w)))"

definition gc_collect :: "world \<Rightarrow> ustring" where
  "gc_collect w = subst_lines (head 500 (staged_diff w))"

definition then_run :: "event list \<Rightarrow> run \<Rightarrow> run" where
  "then_run es r = (es @ fst r, snd r)"

definition error_line :: "ustring \<Rightarrow> event" where
  "error_line msg = Echo (RED @ str ''Error:'' @ NC @ str '' '' @ msg)"

text \<open>\<open>grep -oE 'https?://[^ ]+'\<close> on one line: the matches from left to right.\<close>

definition url_at :: "ustring \<Rightarrow> (ustring \<times> ustring) option" where
  "url_at s =
    (case strip_prefix (str ''http'') s of
       None \<Rightarrow> None
     | Some r \<Rightarrow>
         let scheme = (if prefix (str ''s'') r then str ''https'' else str ''http'');
             r1 = (if prefix (str ''s'') r then drop 1 r else r)
         in (case strip_prefix (str ''://'') r1 of
               None \<Rightarrow> None
             | Some r2 \<Rightarrow>
                 if takeWhile (\<lambda>c. c \<noteq> 32) r2 = [] then None
                 else Some (scheme @ str ''://'' @ takeWhile (\<lambda>c. c \<noteq> 32) r2,
                            dropWhile (\<lambda>c. c \<noteq> 32) r2)))"

function urls_in :: "ustring \<Rightarrow> ustring list" where
  "urls_in [] = []"
| "urls_in (c # cs) =
    (case url_at (c # cs) of
       None \<Rightarrow> urls_in cs
     | Some (u, rest) \<Rightarrow> if length rest \<le> length cs then u # urls_in rest else urls_in cs)"
  by pat_completeness auto
termination
  by (relation "measure length") auto

text \<open>\<open>... | grep -iE '(merge|pull)' | head -1\<close>\<close>

definition mr_url :: "ustring list \<Rightarrow> ustring" where
  "mr_url output =
    subst_lines (head 1 (filter (\<lambda>u. js_includes (toLowerCase u) (str ''merge'') \<or>
                                     js_includes (toLowerCase u) (str ''pull''))
                                (concat (map urls_in output))))"

definition done_banner :: "event list" where
  "done_banner =
    [Echo [],
     Echo (BOLD @ GREEN @ rule51 @ NC),
     Echo (BOLD @ GREEN @ [10024] @ str '' Done!'' @ NC),
     Echo (BOLD @ GREEN @ rule51 @ NC)]"

text \<open>Push (the lines after \<open>[4/4]\<close>): the first push, then the link of a merge request
  on success, one push that sets the upstream when the output holds \<open>no upstream\<close>, and
  the output and status 1 on any other failure. After the branches that go on, the
  function ends with its last \<open>echo\<close>, whose status is 0.\<close>

definition gp_push :: "world \<Rightarrow> run" where
  "gp_push w =
    (let branch = current_branch w;
         captured = subst_lines (push_output w)
     in if push_exit w = 0 then
          ([GitPush branch,
            Echo (GREEN @ [10003] @ str '' Pushed to origin/'' @ branch @ NC)] @
           (if mr_url (push_output w) \<noteq> [] then
              [Echo [],
               Echo (BLUE @ [128206] @ str '' Create Merge Request:'' @ NC),
               Echo (str ''   '' @ BOLD @ mr_url (push_output w) @ NC)]
            else []) @
           done_banner, 0)
        else if list_ex (\<lambda>l. js_includes l (str ''no upstream'')) (push_output w) then
          ([GitPush branch, GitPushSetUpstream branch] @
           (if upstream_push_succeeds w then [Echo (GREEN @ [10003] @ str '' Pushed'' @ NC)] else []) @
           done_banner, 0)
        else
          ([GitPush branch,
            error_line (str ''Push failed''),
            Echo (DIM @ captured @ NC)], 1))"

text \<open>StageAndCommit and what follows it in the push variant.\<close>

definition gp_commit :: "world \<Rightarrow> bool \<Rightarrow> ustring \<Rightarrow> run" where
  "gp_commit w skip_push commit_message =
    then_run
      [Echo [],
       Echo (YELLOW @ str ''[3/4]'' @ NC @ str '' '' @ [128230] @ str '' Staging and committing changes...''),
       GitAddAll]
      (if \<not> staged_after_add w then ([Echo (YELLOW @ str ''Nothing to commit'' @ NC)], 0)
       else if \<not> commit_succeeds w then ([GitCommit commit_message, error_line (str ''Failed to commit'')], 1)
       else
         then_run [GitCommit commit_message, Echo (GREEN @ [10003] @ NC @ str '' Changes committed'')]
           (if skip_push then
              ([Echo (YELLOW @ str ''Skipping push'' @ NC @ str '' - no remote''),
                Echo (BOLD @ GREEN @ [10024] @ str '' Done!'' @ NC)], 0)
            else
              then_run
                [Echo [],
                 Echo (YELLOW @ str ''[4/4]'' @ NC @ str '' '' @ [128640] @ str '' Pushing to remote...'')]
                (gp_push w)))"

text \<open>Review: only after a generated message, in review mode.\<close>

definition review :: "world \<Rightarrow> bool \<Rightarrow> ustring \<Rightarrow> (ustring \<Rightarrow> run) \<Rightarrow> run" where
  "review w review_mode commit_message continue =
    (if \<not> review_mode then continue commit_message
     else
       then_run
         [Echo [],
          EchoN (YELLOW @ str ''Proceed with this commit message? [Y/n/e(dit)]:'' @ NC @ str '' '')]
         (if confirm_reply w = str ''n'' \<or> confirm_reply w = str ''N'' then
            ([Echo (YELLOW @ str ''Aborted.'' @ NC)], 0)
          else if confirm_reply w = str ''e'' \<or> confirm_reply w = str ''E'' then
            then_run [Editor (commit_message @ [nl])] (continue (subst_text (edited w)))
          else continue commit_message))"

text \<open>MessageSource when no message was given: the provider is called with the prompt,
  its output is the message.\<close>

definition generate_message ::
  "cli_info \<Rightarrow> ustring \<Rightarrow> world \<Rightarrow> bool \<Rightarrow> event list \<Rightarrow> ustring \<Rightarrow> (ustring \<Rightarrow> run) \<Rightarrow> run" where
  "generate_message cli model w review_mode steps prompt continue =
    (if \<not> provider_installed w then ([error_line (cli_name cli @ str '' is not installed'')], 1)
     else
       then_run
         (steps @ [RunProvider (buildCLICommand cli model) prompt])
         (if provider_exit w \<noteq> 0 \<or> provider_stdout w = [] then
            ([error_line (str ''Failed to generate commit message''), Cat (provider_stderr w)], 1)
          else
            then_run
              [Echo [],
               Echo (GREEN @ str ''Generated Commit Message:'' @ NC),
               Echo (subst_text (provider_stdout w))]
              (review w review_mode (subst_text (provider_stdout w)) continue)))"

definition gp_generate :: "cli_info \<Rightarrow> ustring \<Rightarrow> world \<Rightarrow> bool \<Rightarrow> (ustring \<Rightarrow> run) \<Rightarrow> run" where
  "gp_generate cli model w review_mode continue =
    generate_message cli model w review_mode
      [Echo [],
       Echo (YELLOW @ str ''[1/4]'' @ NC @ str '' '' @ [128269] @ str '' Analyzing git changes...''),
       Echo (YELLOW @ str ''[2/4]'' @ NC @ str '' '' @ [129302] @ str '' Generating commit message with '' @
             cli_name cli @ str ''...''),
       Echo (DIM @ str ''     (this may take a few seconds...)'' @ NC)]
      (case gp_collect w of (staged, unstaged, untracked_files) \<Rightarrow> gp_prompt staged unstaged untracked_files)
      continue"

definition gp_run :: "cli_info \<Rightarrow> ustring \<Rightarrow> world \<Rightarrow> run" where
  "gp_run cli model w =
    (let (review_mode, user_message) = parse_args (argv w) in
     if \<not> git_installed w then ([error_line (str ''git is not installed'')], 1)
     else if \<not> inside_work_tree w then ([error_line (str ''Not a git repository'')], 1)
     else if list_ex (\<lambda>l. l \<noteq> []) (unmerged w) then ([error_line (str ''Unresolved merge conflicts'')], 1)
     else if current_branch w = [] then ([error_line (str ''Detached HEAD state'')], 1)
     else if \<not> has_staged w \<and> \<not> has_unstaged w \<and> subst_lines (untracked w) = [] then
       ([Echo (YELLOW @ str ''Nothing to commit'' @ NC @ str '' - working tree clean'')] @
        (if 0 < unpushed w then
           [Echo (DIM @ str ''You have '' @ dec (unpushed w) @ str '' unpushed commit(s)'' @ NC),
            EchoN (YELLOW @ str ''Push existing commits? [Y/n]:'' @ NC @ str '' '')] @
           (if prefix (str ''n'') (push_only_reply w) \<or> prefix (str ''N'') (push_only_reply w) then []
            else [GitPush (current_branch w)] @
                 (if push_exit w = 0 then [Echo (GREEN @ [10003] @ str '' Pushed'' @ NC)] else []))
         else []), 0)
     else
       then_run
         ((if origin_configured w then []
           else [Echo (YELLOW @ str ''Warning:'' @ NC @ str '' No remote '' @ [39] @ str ''origin'' @ [39] @ str '' configured'')]) @
          [Echo (BOLD @ BLUE @ rule51 @ NC),
           Echo (BOLD @ [128640] @ str '' Git Push with AI Commit Message'' @ NC),
           Echo (BOLD @ BLUE @ rule51 @ NC)])
         (if user_message \<noteq> [] then
            then_run [Echo [], Echo (GREEN @ [10003] @ NC @ str '' Using provided commit message'')]
              (gp_commit w (\<not> origin_configured w) user_message)
          else gp_generate cli model w review_mode (gp_commit w (\<not> origin_configured w))))"

text \<open>The commit-only variant: no conflict, branch, remote or push states.\<close>

definition gc_commit :: "world \<Rightarrow> ustring \<Rightarrow> run" where
  "gc_commit w commit_message =
    then_run
      [Echo [],
       Echo (YELLOW @ [128230] @ str '' Committing...'' @ NC)]
      (if \<not> commit_succeeds w then ([GitCommit commit_message, error_line (str ''Failed to commit'')], 1)
       else (GitCommit commit_message # done_banner, 0))"

definition gc_generate :: "cli_info \<Rightarrow> ustring \<Rightarrow> world \<Rightarrow> bool \<Rightarrow> (ustring \<Rightarrow> run) \<Rightarrow> run" where
  "gc_generate cli model w review_mode continue =
    generate_message cli model w review_mode
      [Echo [],
       Echo (YELLOW @ str ''[1/2]'' @ NC @ str '' '' @ [128269] @ str '' Analyzing staged changes...''),
       Echo (YELLOW @ str ''[2/2]'' @ NC @ str '' '' @ [129302] @ str '' Generating commit message with '' @
             cli_name cli @ str ''...''),
       Echo (DIM @ str ''     (this may take a few seconds...)'' @ NC)]
      (gc_prompt (gc_collect w))
      continue"

definition gc_run :: "cli_info \<Rightarrow> ustring \<Rightarrow> world \<Rightarrow> run" where
  "gc_run cli model w =
    (let (review_mode, user_message) = parse_args (argv w) in
     if \<not> git_installed w then ([error_line (str ''git is not installed'')], 1)
     else if \<not> inside_work_tree w then ([error_line (str ''Not a git repository'')], 1)
     else if \<not> has_staged w then
       ([Echo (YELLOW @ str ''Nothing to commit'' @ NC @ str '' - no staged changes''),
         Echo (DIM @ str ''Stage changes first: git add <files>'' @ NC)], 0)
     else
       then_run
         [Echo (BOLD @ BLUE @ rule51 @ NC),
          Echo (BOLD @ [128221] @ str '' Git Commit with AI Message'' @ NC),
          Echo (BOLD @ BLUE @ rule51 @ NC)]
         (if user_message \<noteq> [] then
            then_run [Echo [], Echo (GREEN @ [10003] @ NC @ str '' Using provided commit message'')]
              (gc_commit w user_message)
          else gc_generate cli model w review_mode (gc_commit w)))"

text \<open>The Push state is reached: the preconditions hold, there is something to commit,
  \<open>origin\<close> is configured, a message is at hand and the commit went through.\<close>

definition reaches_push :: "world \<Rightarrow> bool" where
  "reaches_push w \<longleftrightarrow>
     git_installed w \<and> inside_work_tree w \<and> \<not> list_ex (\<lambda>l. l \<noteq> []) (unmerged w) \<and>
     current_branch w \<noteq> [] \<and>
     (has_staged w \<or> has_unstaged w \<or> subst_lines (untracked w) \<noteq> []) \<and>
     origin_configured w \<and>
     (snd (parse_args (argv w)) \<noteq> [] \<or>
      (provider_installed w \<and> provider_exit w = 0 \<and> provider_stdout w \<noteq> [] \<and>
       (fst (parse_args (argv w)) \<longrightarrow> confirm_reply w \<noteq> str ''n'' \<and> confirm_reply w \<noteq> str ''N''))) \<and>
     staged_after_add w \<and> commit_succeeds w"

text \<open>MessageSource is reached with no message given and the provider at hand.\<close>

definition reaches_generation :: "world \<Rightarrow> bool" where
  "reaches_generation w \<longleftrightarrow>
     git_installed w \<and> inside_work_tree w \<and> \<not> list_ex (\<lambda>l. l \<noteq> []) (unmerged w) \<and>
     current_branch w \<noteq> [] \<and>
     (has_staged w \<or> has_unstaged w \<or> subst_lines (untracked w) \<noteq> []) \<and>
     snd (parse_args (argv w)) = [] \<and> provider_installed w"

fun is_push :: "event \<Rightarrow> bool" where
  "is_push (GitPush b) = True"
| "is_push e = False"

fun is_upstream_push :: "event \<Rightarrow> bool" where
  "is_upstream_push (GitPushSetUpstream b) = True"
| "is_upstream_push e = False"

text \<open>A repository on branch \<open>main\<close> with \<open>origin\<close> configured, one staged change, the
  message given on the command line, and a first push that fails.\<close>

definition sample_world :: world where
  "sample_world =
    \<lparr> argv = [str ''fix'', str ''typo''], git_installed = True, inside_work_tree = True,
      unmerged = [], current_branch = str ''main'', has_staged = True, has_unstaged = False,
      staged_diff = [str ''+a''], unstaged_diff = [], untracked = [], unpushed = 0,
      push_only_reply = [], origin_configured = True, provider_installed = True,
      provider_exit = 0, provider_stdout = str ''fix: typo'', provider_stderr = [],
      confirm_reply = [], edited = [], staged_after_add = True, commit_succeeds = True,
      push_exit = 1, push_output = [str ''fatal: The current branch main has no upstream branch.''],
      upstream_push_succeeds = True \<rparr>"

text \<open>The sample repository with no message on the command line and 51 untracked files.\<close>

definition many_untracked :: world where
  "many_untracked = sample_world\<lparr>argv := [], untracked := replicate 51 (str ''f'')\<rparr>"

section \<open>Predicates on profile text\<close>

text \<open>No position of the text starts a function opening for the name.\<close>

definition header_free :: "ustring \<Rightarrow> ustring \<Rightarrow> bool" where
  "header_free n s \<longleftrightarrow> list_all (\<lambda>t. fn_header n t = None) (suffixes s)"

text \<open>The text has exactly one function opening for the name, and the rest of the text from
  there is \<open>t\<close>.\<close>

definition only_opening :: "ustring \<Rightarrow> ustring \<Rightarrow> ustring \<Rightarrow> bool" where
  "only_opening n content t \<longleftrightarrow> filter (\<lambda>u. fn_header n u \<noteq> None) (suffixes content) = [t]"

text \<open>The text is one comment line that holds the name after \<open># \<close>: what
  \<open># [^\n]*NAME[^\n]*\n\<close> matches, when the text ends there.\<close>

definition is_comment_line :: "ustring \<Rightarrow> ustring \<Rightarrow> bool" where
  "is_comment_line n s \<longleftrightarrow>
    (case strip_prefix (str ''# '') s of
       None \<Rightarrow> False
     | Some r \<Rightarrow> r \<noteq> [] \<and> last r = nl \<and> nl \<notin> set (butlast r) \<and> sublist n (butlast r))"

text \<open>The text before a block, without the comment line for the name that ends it: it is
  cut at the first position from which the rest is such a comment line, and is left as it is
  when there is no such position.\<close>

fun comment_cut :: "ustring \<Rightarrow> ustring \<Rightarrow> ustring" where
  "comment_cut n [] = []"
| "comment_cut n (c # cs) = (if is_comment_line n (c # cs) then [] else c # comment_cut n cs)"

text \<open>The braces of the text are balanced, \<open>d\<close> of them being open at its start.\<close>

fun braces_closed :: "nat \<Rightarrow> ustring \<Rightarrow> bool" where
  "braces_closed d [] = (d = 0)"
| "braces_closed d (c # cs) =
    (if c = lbrace then braces_closed (Suc d) cs
     else if c = rbrace then 0 < d \<and> braces_closed (d - 1) cs
     else braces_closed d cs)"

section \<open>Sample hosts, file systems and profiles\<close>

definition empty_fs :: fsys where
  "empty_fs = \<lparr> files = Map.empty, unreadable = {}, unwritable = {} \<rparr>"

definition bash_host :: host where
  "bash_host = \<lparr> shell_var = Some (str ''/bin/bash''), homedir = str ''/home/u'', now_ms = 1700000000000,
                 iso_time = str ''2023-11-14T22:13:20.000Z'' \<rparr>"

definition zsh_host :: host where
  "zsh_host = \<lparr> shell_var = Some (str ''/bin/zsh''), homedir = str ''/home/u'', now_ms = 1700000000000,
                iso_time = str ''2023-11-14T22:13:20.000Z'' \<rparr>"

definition trailing_separator_host :: host where
  "trailing_separator_host = \<lparr> shell_var = Some (str ''/usr/bin/zsh''), homedir = str ''/home/u/'',
                now_ms = 1700000000000, iso_time = str ''2023-11-14T22:13:20.000Z'' \<rparr>"

definition reload_function_profile :: ustring where
  "reload_function_profile = join_lines [str ''rl() {'', str ''  source ~/.zshrc'', str ''}'', []]"

definition reload_function_fs :: fsys where
  "reload_function_fs =
    \<lparr> files = [str ''/home/u/.zshrc'' \<mapsto> reload_function_profile], unreadable = {}, unwritable = {} \<rparr>"

definition two_blocks_before :: ustring where
  "two_blocks_before = join_lines [str ''export EDITOR=vim'', []]"

definition two_blocks_block :: ustring where
  "two_blocks_block = join_lines [str ''gp() {'', str ''  git push'', str ''}'', []]"

definition two_blocks_after :: ustring where
  "two_blocks_after = join_lines [[], str ''gc() {'', str ''  git commit'', str ''}'', []]"

definition suffix_names_profile :: ustring where
  "suffix_names_profile = join_lines [str ''gp() {'', str ''  :'', str ''}'', str ''p() {'', str ''  :'', str ''}'', []]"

definition two_blank_lines_profile :: ustring where
  "two_blank_lines_profile = join_lines [str ''a() {'', str ''}'', str ''x'', [], [], str ''y'',
     str ''b() {'', str ''}'', []]"

definition commented_before :: ustring where
  "commented_before = join_lines [str ''export EDITOR=vim'', str ''# gp: push with a message'', []]"

definition one_line_profile :: ustring where
  "one_line_profile = join_lines [str ''gp() { git push; }'', []]"

definition one_line_fs :: fsys where
  "one_line_fs =
    \<lparr> files = [str ''/home/u/.zshrc'' \<mapsto> one_line_profile], unreadable = {}, unwritable = {} \<rparr>"
section \<open>Lemmas on text\<close>

section \<open>Characters\<close>

lemma space_chars [simp]: "is_space nl" "\<not> is_space lparen" "\<not> is_space rparen" "\<not> is_space lbrace" "\<not> is_space rbrace"
  by (simp_all add: is_space_def nl_def lparen_def rparen_def lbrace_def rbrace_def)

lemma word_char_not [simp]:
  assumes "word_char c"
  shows "\<not> is_space c" "c \<noteq> nl" "c \<noteq> lparen" "c \<noteq> rparen" "c \<noteq> lbrace" "c \<noteq> rbrace" "c \<noteq> 35"
  using assms by (auto simp add: word_char_def is_space_def nl_def lparen_def rparen_def lbrace_def rbrace_def)

lemma word_nameD: "word_name n \<Longrightarrow> n \<noteq> [] \<and> (\<forall>c\<in>set n. word_char c)"
  by (simp add: word_name_def list_all_iff)

section \<open>What the function opening matches\<close>

lemma expect_Some_iff:
  assumes "\<not> is_space c"
  shows "expect c s = Some r \<longleftrightarrow> (\<exists>w. (\<forall>x\<in>set w. is_space x) \<and> s = w @ c # r)"
proof
  assume e: "expect c s = Some r"
  then have "dropWhile is_space s = c # r"
    by (auto simp add: expect_def split: list.splits if_splits)
  then have "s = takeWhile is_space s @ c # r"
    by (metis takeWhile_dropWhile_id)
  moreover have "\<forall>x\<in>set (takeWhile is_space s). is_space x"
    by (auto dest: set_takeWhileD)
  ultimately show "\<exists>w. (\<forall>x\<in>set w. is_space x) \<and> s = w @ c # r" by blast
next
  assume "\<exists>w. (\<forall>x\<in>set w. is_space x) \<and> s = w @ c # r"
  then obtain w where w: "\<forall>x\<in>set w. is_space x" "s = w @ c # r" by blast
  then have "dropWhile is_space s = c # r" using assms by (simp add: dropWhile_append2)
  then show "expect c s = Some r" by (simp add: expect_def)
qed

lemma expect_SomeI: "\<not> is_space c \<Longrightarrow> \<forall>x\<in>set w. is_space x \<Longrightarrow> expect c (w @ c # r) = Some r"
  by (simp add: expect_def dropWhile_append2)

lemma fn_open_Some_iff:
  "fn_open s = Some r \<longleftrightarrow>
    (\<exists>w1 w2 w3. (\<forall>x\<in>set w1. is_space x) \<and> (\<forall>x\<in>set w2. is_space x) \<and> (\<forall>x\<in>set w3. is_space x) \<and>
       s = w1 @ lparen # w2 @ rparen # w3 @ lbrace # r)"
proof
  assume "fn_open s = Some r"
  then obtain r1 r2 where e: "expect lparen s = Some r1" "expect rparen r1 = Some r2" "expect lbrace r2 = Some r"
    by (auto simp add: fn_open_def bind_eq_Some_conv)
  from e(1) obtain w1 where w1: "\<forall>x\<in>set w1. is_space x" "s = w1 @ lparen # r1"
    using expect_Some_iff [of lparen s r1] by auto
  from e(2) obtain w2 where w2: "\<forall>x\<in>set w2. is_space x" "r1 = w2 @ rparen # r2"
    using expect_Some_iff [of rparen r1 r2] by auto
  from e(3) obtain w3 where w3: "\<forall>x\<in>set w3. is_space x" "r2 = w3 @ lbrace # r"
    using expect_Some_iff [of lbrace r2 r] by auto
  from w1 w2 w3 show "\<exists>w1 w2 w3. (\<forall>x\<in>set w1. is_space x) \<and> (\<forall>x\<in>set w2. is_space x) \<and> (\<forall>x\<in>set w3. is_space x) \<and>
       s = w1 @ lparen # w2 @ rparen # w3 @ lbrace # r"
    by (intro exI [of _ w1] exI [of _ w2] exI [of _ w3]) simp
next
  assume "\<exists>w1 w2 w3. (\<forall>x\<in>set w1. is_space x) \<and> (\<forall>x\<in>set w2. is_space x) \<and> (\<forall>x\<in>set w3. is_space x) \<and>
       s = w1 @ lparen # w2 @ rparen # w3 @ lbrace # r"
  then obtain w1 w2 w3 where w: "\<forall>x\<in>set w1. is_space x" "\<forall>x\<in>set w2. is_space x" "\<forall>x\<in>set w3. is_space x"
    and s: "s = w1 @ lparen # w2 @ rparen # w3 @ lbrace # r" by blast
  show "fn_open s = Some r"
    unfolding fn_open_def s by (simp add: expect_SomeI w)
qed

lemma strip_prefix_Some_iff: "strip_prefix p s = Some r \<longleftrightarrow> s = p @ r"
  by (auto simp add: strip_prefix_def prefix_def)

lemma strip_prefix_append [simp]: "strip_prefix p (p @ r) = Some r"
  by (simp add: strip_prefix_Some_iff)

lemma fn_header_Some_iff:
  "fn_header n s = Some r \<longleftrightarrow>
    (\<exists>w1 w2 w3. (\<forall>x\<in>set w1. is_space x) \<and> (\<forall>x\<in>set w2. is_space x) \<and> (\<forall>x\<in>set w3. is_space x) \<and>
       s = n @ w1 @ lparen # w2 @ rparen # w3 @ lbrace # r)"
proof
  assume "fn_header n s = Some r"
  then obtain r0 where r0: "s = n @ r0" "fn_open r0 = Some r"
    by (auto simp add: fn_header_def bind_eq_Some_conv strip_prefix_Some_iff)
  from r0(2) obtain w1 w2 w3 where "(\<forall>x\<in>set w1. is_space x) \<and> (\<forall>x\<in>set w2. is_space x) \<and> (\<forall>x\<in>set w3. is_space x) \<and>
       r0 = w1 @ lparen # w2 @ rparen # w3 @ lbrace # r"
    unfolding fn_open_Some_iff by blast
  with r0(1) show "\<exists>w1 w2 w3. (\<forall>x\<in>set w1. is_space x) \<and> (\<forall>x\<in>set w2. is_space x) \<and> (\<forall>x\<in>set w3. is_space x) \<and>
       s = n @ w1 @ lparen # w2 @ rparen # w3 @ lbrace # r"
    by (intro exI [of _ w1] exI [of _ w2] exI [of _ w3]) simp
next
  assume "\<exists>w1 w2 w3. (\<forall>x\<in>set w1. is_space x) \<and> (\<forall>x\<in>set w2. is_space x) \<and> (\<forall>x\<in>set w3. is_space x) \<and>
       s = n @ w1 @ lparen # w2 @ rparen # w3 @ lbrace # r"
  then obtain w1 w2 w3 where w: "\<forall>x\<in>set w1. is_space x" "\<forall>x\<in>set w2. is_space x" "\<forall>x\<in>set w3. is_space x"
    and s: "s = n @ w1 @ lparen # w2 @ rparen # w3 @ lbrace # r" by blast
  have "fn_open (w1 @ lparen # w2 @ rparen # w3 @ lbrace # r) = Some r"
    unfolding fn_open_Some_iff using w by blast
  then show "fn_header n s = Some r"
    unfolding fn_header_def s by simp
qed

lemma fn_header_extend: "fn_header n s = Some r \<Longrightarrow> fn_header n (s @ z) = Some (r @ z)"
proof -
  assume "fn_header n s = Some r"
  then obtain w1 w2 w3 where w: "\<forall>x\<in>set w1. is_space x" "\<forall>x\<in>set w2. is_space x" "\<forall>x\<in>set w3. is_space x"
    and s: "s = n @ w1 @ lparen # w2 @ rparen # w3 @ lbrace # r"
    unfolding fn_header_Some_iff by blast
  have "s @ z = n @ w1 @ lparen # w2 @ rparen # w3 @ lbrace # (r @ z)" using s by simp
  with w show ?thesis unfolding fn_header_Some_iff by blast
qed

section \<open>Collapsing line breaks\<close>

lemmas collapse_Cons = collapse_blank.simps(2)
declare collapse_blank.simps(2) [simp del]

lemma collapse_non_nl [simp]: "c \<noteq> nl \<Longrightarrow> collapse_blank (c # cs) = c # collapse_blank cs"
  by (simp add: collapse_Cons)

lemma collapse_run:
  "3 \<le> length (takeWhile (\<lambda>x. x = nl) (nl # cs)) \<Longrightarrow>
   collapse_blank (nl # cs) = nl # nl # collapse_blank (dropWhile (\<lambda>x. x = nl) cs)"
  by (subst collapse_Cons) simp

lemma collapse_short:
  "\<not> 3 \<le> length (takeWhile (\<lambda>x. x = nl) (nl # cs)) \<Longrightarrow>
   collapse_blank (nl # cs) = nl # collapse_blank cs"
  by (subst collapse_Cons) simp

lemma takeWhile_append_stop: "\<not> P d \<Longrightarrow> takeWhile P (xs @ d # r) = takeWhile P xs"
  by (induction xs) auto

lemma dropWhile_append_stop: "\<not> P d \<Longrightarrow> dropWhile P (xs @ d # r) = dropWhile P xs @ d # r"
  by (induction xs) auto

lemma collapse_append_non_nl:
  "d \<noteq> nl \<Longrightarrow> collapse_blank (xs @ d # r) = collapse_blank xs @ d # collapse_blank r"
proof (induction xs rule: collapse_blank.induct)
  case 1
  then show ?case by simp
next
  case (2 c cs)
  have tw: "takeWhile (\<lambda>x. x = nl) (c # cs @ d # r) = takeWhile (\<lambda>x. x = nl) (c # cs)"
    using 2(3) takeWhile_append_stop [of "\<lambda>x. x = nl" d "c # cs" r] by simp
  have dw: "dropWhile (\<lambda>x. x = nl) (cs @ d # r) = dropWhile (\<lambda>x. x = nl) cs @ d # r"
    using 2(3) by (simp add: dropWhile_append_stop)
  show ?case
  proof (cases "c = nl \<and> 3 \<le> length (takeWhile (\<lambda>x. x = nl) (c # cs))")
    case True
    then have c: "c = nl" and l: "3 \<le> length (takeWhile (\<lambda>x. x = nl) (nl # cs))" by auto
    from l tw c have l': "3 \<le> length (takeWhile (\<lambda>x. x = nl) (nl # cs @ d # r))" by simp
    have "collapse_blank ((c # cs) @ d # r) = nl # nl # collapse_blank (dropWhile (\<lambda>x. x = nl) (cs @ d # r))"
      using collapse_run [OF l'] c by simp
    also have "\<dots> = nl # nl # collapse_blank (dropWhile (\<lambda>x. x = nl) cs) @ d # collapse_blank r"
      using 2(1) [OF True 2(3)] dw by simp
    also have "\<dots> = collapse_blank (c # cs) @ d # collapse_blank r"
      using collapse_run [OF l] c by simp
    finally show ?thesis .
  next
    case False
    show ?thesis
    proof (cases "c = nl")
      case True
      with False have l: "\<not> 3 \<le> length (takeWhile (\<lambda>x. x = nl) (nl # cs))" by simp
      with tw True have l': "\<not> 3 \<le> length (takeWhile (\<lambda>x. x = nl) (nl # cs @ d # r))" by simp
      show ?thesis
        using collapse_short [OF l] collapse_short [OF l'] 2(2) [OF False 2(3)] True by simp
    next
      case c: False
      then show ?thesis using 2(2) [OF False 2(3)] by simp
    qed
  qed
qed

lemma set_collapse: "set (collapse_blank s) \<subseteq> set s"
proof (induction s rule: collapse_blank.induct)
  case 1 then show ?case by simp
next
  case (2 c cs)
  show ?case
  proof (cases "c = nl \<and> 3 \<le> length (takeWhile (\<lambda>x. x = nl) (c # cs))")
    case True
    then have c: "c = nl" and l: "3 \<le> length (takeWhile (\<lambda>x. x = nl) (nl # cs))" by auto
    have "set (dropWhile (\<lambda>x. x = nl) cs) \<subseteq> set cs" by (meson set_dropWhileD subsetI)
    with 2(1) [OF True] have "set (collapse_blank (dropWhile (\<lambda>x. x = nl) cs)) \<subseteq> set cs" by blast
    then show ?thesis unfolding c collapse_run [OF l] by auto
  next
    case False
    from 2(2) [OF False] have "set (c # collapse_blank cs) \<subseteq> set (c # cs)" by auto
    moreover have "collapse_blank (c # cs) = c # collapse_blank cs"
      using False by (subst collapse_Cons) simp
    ultimately show ?thesis by simp
  qed
qed

lemma dropWhile_space_collapse:
  "dropWhile is_space (collapse_blank s) = collapse_blank (dropWhile is_space s)"
proof (cases "dropWhile is_space s")
  case Nil
  then have "\<forall>x\<in>set s. is_space x" by (simp add: dropWhile_eq_Nil_conv)
  with set_collapse [of s] have "\<forall>x\<in>set (collapse_blank s). is_space x" by blast
  then have "dropWhile is_space (collapse_blank s) = []" by simp
  then show ?thesis unfolding Nil by simp
next
  case (Cons d r)
  then have d: "\<not> is_space d" by (metis hd_dropWhile list.distinct(1) list.sel(1))
  then have dn: "d \<noteq> nl" by auto
  have s: "s = takeWhile is_space s @ d # r" using Cons by (metis takeWhile_dropWhile_id)
  have "\<forall>x\<in>set (collapse_blank (takeWhile is_space s)). is_space x"
    using set_collapse [of "takeWhile is_space s"] by (auto dest: set_takeWhileD)
  then have "dropWhile is_space (collapse_blank (takeWhile is_space s) @ d # collapse_blank r) = d # collapse_blank r"
    using d by (simp add: dropWhile_append2)
  moreover have "collapse_blank s = collapse_blank (takeWhile is_space s) @ d # collapse_blank r"
    using collapse_append_non_nl [OF dn, of "takeWhile is_space s" r] s by simp
  ultimately show ?thesis unfolding Cons using dn by simp
qed

lemma expect_collapse:
  "\<not> is_space c \<Longrightarrow> expect c (collapse_blank s) = map_option collapse_blank (expect c s)"
proof (cases "dropWhile is_space s")
  case Nil
  show ?thesis unfolding expect_def dropWhile_space_collapse Nil by simp
next
  case (Cons d r)
  then have "\<not> is_space d" by (metis hd_dropWhile list.distinct(1) list.sel(1))
  then have "d \<noteq> nl" by auto
  then show ?thesis unfolding expect_def dropWhile_space_collapse Cons by simp
qed

lemma fn_open_collapse: "fn_open (collapse_blank s) = map_option collapse_blank (fn_open s)"
proof (cases "expect lparen s")
  case None
  then show ?thesis by (simp add: fn_open_def expect_collapse)
next
  case (Some r1)
  show ?thesis
  proof (cases "expect rparen r1")
    case None
    with Some show ?thesis by (simp add: fn_open_def expect_collapse)
  next
    case (Some r2)
    with \<open>expect lparen s = Some r1\<close> show ?thesis by (simp add: fn_open_def expect_collapse)
  qed
qed

lemma collapse_nl_hd: "hd (collapse_blank (nl # cs)) = nl"
  by (subst collapse_Cons) auto

lemma collapse_word_append:
  "\<forall>c\<in>set n. word_char c \<Longrightarrow> collapse_blank (n @ r) = n @ collapse_blank r"
  by (induction n) auto

lemma strip_prefix_collapse:
  assumes "word_name n"
  shows "strip_prefix n (collapse_blank s) = map_option collapse_blank (strip_prefix n s)"
proof -
  from assms have n: "\<forall>c\<in>set n. word_char c" by (simp add: word_nameD)
  have "prefix n (collapse_blank s) \<longleftrightarrow> prefix n s" using n
  proof (induction n arbitrary: s)
    case Nil then show ?case by simp
  next
    case (Cons a n)
    show ?case
    proof (cases s)
      case Nil then show ?thesis by simp
    next
      case (Cons b s')
      show ?thesis
      proof (cases "b = nl")
        case True
        with Cons.prems have "a \<noteq> b" by auto
        moreover from True have "hd (collapse_blank (b # s')) = nl" by (simp add: collapse_nl_hd)
        moreover have "collapse_blank (b # s') \<noteq> []" by (subst collapse_Cons) auto
        ultimately show ?thesis using Cons True by (cases "collapse_blank (b # s')") auto
      next
        case False
        with Cons Cons.IH [of s'] Cons.prems show ?thesis by simp
      qed
    qed
  qed
  moreover have "prefix n s \<Longrightarrow> drop (length n) (collapse_blank s) = collapse_blank (drop (length n) s)"
    using collapse_word_append [OF n] by (auto simp add: prefix_def)
  ultimately show ?thesis by (simp add: strip_prefix_def)
qed

lemma fn_header_collapse:
  "word_name n \<Longrightarrow> fn_header n (collapse_blank s) = map_option collapse_blank (fn_header n s)"
  unfolding fn_header_def
  by (cases "strip_prefix n s") (simp_all add: strip_prefix_collapse fn_open_collapse)

section \<open>Matches at line starts\<close>

lemma fn_header_Nil [simp]: "word_name n \<Longrightarrow> fn_header n [] = None"
  by (cases n) (simp_all add: fn_header_def strip_prefix_def word_name_def)

lemma fn_header_starts_word:
  assumes "word_name n" "fn_header n (c # r) \<noteq> None"
  shows "word_char c"
proof -
  from assms(1) obtain a n' where n: "n = a # n'" "word_char a"
    by (cases n) (auto simp add: word_name_def)
  from assms(2) have "prefix n (c # r)"
    by (auto simp add: fn_header_def strip_prefix_def split: if_splits)
  with n show ?thesis by simp
qed

lemma not_word_nl [simp]: "\<not> word_char nl"
  by (simp add: word_char_def nl_def)

lemma fn_header_nl [simp]: "word_name n \<Longrightarrow> fn_header n (nl # r) = None"
  using fn_header_starts_word [of n nl r] by (cases "fn_header n (nl # r)") auto

lemma lsm_replace_id:
  assumes "\<And>t. m t = None \<Longrightarrow> m' t = None"
  shows "line_start_matches m b s = 0 \<Longrightarrow> replace_all_lines m' b s = s"
proof (induction s arbitrary: b)
  case Nil then show ?case by simp
next
  case (Cons c cs)
  from Cons.prems have 1: "\<not> (b \<and> m (c # cs) \<noteq> None)" and 2: "line_start_matches m (is_line_terminator c) cs = 0"
    by (auto split: if_splits)
  from 1 assms have "(if b then m' (c # cs) else None) = None" by auto
  with Cons.IH [OF 2] show ?case by simp
qed

lemma lsm_append_ge:
  "line_start_matches m (if xs = [] then b else is_line_terminator (last xs)) ys
     \<le> line_start_matches m b (xs @ ys) + (if ys = [] \<and> m [] \<noteq> None then 1 else 0)"
proof (induction xs arbitrary: b)
  case Nil then show ?case by simp
next
  case (Cons c cs)
  from Cons.IH [of "is_line_terminator c"] show ?case by (cases "cs = []") auto
qed

lemma lsm_extend:
  assumes ext: "\<And>t z. m t \<noteq> None \<Longrightarrow> m (t @ z) \<noteq> None" and nil: "m [] = None"
  shows "0 < line_start_matches m b xs \<Longrightarrow> 0 < line_start_matches m b (xs @ ys)"
proof (induction xs arbitrary: b)
  case Nil then show ?case using nil by simp
next
  case (Cons c cs)
  show ?case
  proof (cases "b \<and> m (c # cs) \<noteq> None")
    case True
    with ext [of "c # cs" ys] show ?thesis by simp
  next
    case False
    with Cons.prems have "0 < line_start_matches m (is_line_terminator c) cs" by (auto split: if_splits)
    from Cons.IH [OF this] show ?thesis by simp
  qed
qed

lemma lsm_skip_newlines:
  assumes "\<And>r. m (nl # r) = None" "m [] = None"
  shows "line_start_matches m True (dropWhile (\<lambda>x. x = nl) cs) = line_start_matches m True cs"
proof (induction cs)
  case Nil then show ?case by simp
next
  case (Cons c cs)
  have "is_line_terminator nl" by (simp add: is_line_terminator_def nl_def)
  with Cons assms show ?case by simp
qed

lemma lsm_collapse:
  assumes wn: "word_name n"
  shows "0 < line_start_matches (fn_header n) b s \<Longrightarrow> 0 < line_start_matches (fn_header n) b (collapse_blank s)"
proof (induction s arbitrary: b rule: collapse_blank.induct)
  case 1 then show ?case by simp
next
  case (2 c cs)
  have lt: "is_line_terminator nl" by (simp add: is_line_terminator_def nl_def)
  show ?case
  proof (cases "b \<and> fn_header n (c # cs) \<noteq> None")
    case True
    then have "word_char c" using fn_header_starts_word [OF wn] by blast
    then have c: "c \<noteq> nl" by simp
    from True have "fn_header n (collapse_blank (c # cs)) \<noteq> None"
      by (simp add: fn_header_collapse [OF wn] del: collapse_non_nl)
    with True c show ?thesis by simp
  next
    case False
    with 2(3) have later: "0 < line_start_matches (fn_header n) (is_line_terminator c) cs"
      by (auto split: if_splits)
    show ?thesis
    proof (cases "c = nl \<and> 3 \<le> length (takeWhile (\<lambda>x. x = nl) (c # cs))")
      case True
      then have c: "c = nl" and l: "3 \<le> length (takeWhile (\<lambda>x. x = nl) (nl # cs))" by auto
      from later c lt have "0 < line_start_matches (fn_header n) True (dropWhile (\<lambda>x. x = nl) cs)"
        by (simp add: lsm_skip_newlines wn)
      from 2(1) [OF True this] show ?thesis
        unfolding c collapse_run [OF l] using lt by simp
    next
      case False
      then have "collapse_blank (c # cs) = c # collapse_blank cs" by (subst collapse_Cons) simp
      with 2(2) [OF False later] show ?thesis by simp
    qed
  qed
qed


section \<open>Global replacement\<close>

lemma replace_all_skip:
  "(\<And>u. suffix u X \<Longrightarrow> u \<noteq> [] \<Longrightarrow> m (u @ Z) = None) \<Longrightarrow> replace_all m (X @ Z) = X @ replace_all m Z"
proof (induction X)
  case Nil then show ?case by simp
next
  case (Cons c X)
  have "m ((c # X) @ Z) = None" by (rule Cons.prems) simp_all
  moreover have "replace_all m (X @ Z) = X @ replace_all m Z"
    by (rule Cons.IH) (simp add: Cons.prems suffix_Cons)
  ultimately show ?case by simp
qed

lemma replace_all_id:
  "(\<And>t. suffix t Z \<Longrightarrow> m t = None) \<Longrightarrow> replace_all m Z = Z"
  using replace_all_skip [of Z m "[]"] by simp

lemma replace_all_hit:
  "m t = Some r \<Longrightarrow> length r < length t \<Longrightarrow> replace_all m t = replace_all m r"
  by (cases t) simp_all

section \<open>The removal patterns\<close>

lemma fn_header_shorter: "fn_header n s = Some r \<Longrightarrow> length r < length s"
  unfolding fn_header_Some_iff by auto

lemma lazy_close_shorter: "lazy_close s = Some r \<Longrightarrow> length r < length s"
  by (induction s rule: lazy_close.induct) (auto split: if_splits)

lemma opt_nl_length: "length (opt_nl s) \<le> length s"
  by (auto simp add: opt_nl_def split: list.splits)

lemma simplePattern_SomeD:
  assumes "simplePattern n t = Some r"
  shows "fn_header n t \<noteq> None" "length r < length t"
proof -
  from assms obtain r1 r2 where r: "fn_header n t = Some r1" "lazy_close r1 = Some r2" "r = opt_nl r2"
    by (auto simp add: simplePattern_def bind_eq_Some_conv)
  then show "fn_header n t \<noteq> None" by simp
  from r fn_header_shorter [OF r(1)] lazy_close_shorter [OF r(2)] opt_nl_length [of r2]
  show "length r < length t" by simp
qed

lemma functionPattern_SomeD:
  assumes "functionPattern n t = Some r"
  shows "\<exists>L t'. t = str ''# '' @ L @ nl # t' \<and> nl \<notin> set L \<and> sublist n L \<and> simplePattern n t' = Some r"
proof -
  from assms obtain r0 where r0: "t = str ''# '' @ r0"
    by (cases "strip_prefix (str ''# '') t") (simp_all add: functionPattern_def strip_prefix_Some_iff)
  then have "strip_prefix (str ''# '') t = Some r0" by simp
  with assms have c: "(case dropWhile (\<lambda>c. c \<noteq> nl) r0 of [] \<Rightarrow> None
          | x # next_line \<Rightarrow> if sublist n (takeWhile (\<lambda>c. c \<noteq> nl) r0) then simplePattern n next_line else None) = Some r"
    by (simp add: functionPattern_def)
  have ne: "dropWhile (\<lambda>c. c \<noteq> nl) r0 \<noteq> []"
  proof
    assume e: "dropWhile (\<lambda>c. c \<noteq> nl) r0 = []"
    from c show False unfolding e by (simp only: list.case option.distinct)
  qed
  then obtain x t' where d: "dropWhile (\<lambda>c. c \<noteq> nl) r0 = x # t'"
    by (meson neq_Nil_conv)
  from c have c': "(if sublist n (takeWhile (\<lambda>c. c \<noteq> nl) r0) then simplePattern n t' else None) = Some r"
    unfolding d by (simp only: list.case)
  have s: "sublist n (takeWhile (\<lambda>c. c \<noteq> nl) r0)"
  proof (rule ccontr)
    assume "\<not> sublist n (takeWhile (\<lambda>c. c \<noteq> nl) r0)"
    then show False using c' by (simp only: if_False option.distinct)
  qed
  have sp: "simplePattern n t' = Some r" using c' unfolding if_P [OF s] .
  have "\<not> (\<lambda>c. c \<noteq> nl) (hd (dropWhile (\<lambda>c. c \<noteq> nl) r0))"
    by (rule hd_dropWhile) (rule ne)
  then have "x = nl" unfolding d by simp
  have "takeWhile (\<lambda>c. c \<noteq> nl) r0 @ dropWhile (\<lambda>c. c \<noteq> nl) r0 = r0"
    by (rule takeWhile_dropWhile_id)
  then have "r0 = takeWhile (\<lambda>c. c \<noteq> nl) r0 @ nl # t'" unfolding d \<open>x = nl\<close> by (rule sym)
  moreover have "nl \<notin> set (takeWhile (\<lambda>c. c \<noteq> nl) r0)" by (auto dest: set_takeWhileD)
  ultimately show ?thesis using r0 s sp by blast
qed

lemma is_comment_line_iff:
  "is_comment_line n s \<longleftrightarrow> (\<exists>L. s = str ''# '' @ L @ [nl] \<and> nl \<notin> set L \<and> sublist n L)"
proof
  assume "is_comment_line n s"
  then obtain r where r: "s = str ''# '' @ r" "r \<noteq> []" "last r = nl" "nl \<notin> set (butlast r)" "sublist n (butlast r)"
    by (cases "strip_prefix (str ''# '') s") (simp_all add: is_comment_line_def strip_prefix_Some_iff)
  from r(2,3) have "r = butlast r @ [nl]" by (metis append_butlast_last_id)
  with r show "\<exists>L. s = str ''# '' @ L @ [nl] \<and> nl \<notin> set L \<and> sublist n L" by metis
next
  assume "\<exists>L. s = str ''# '' @ L @ [nl] \<and> nl \<notin> set L \<and> sublist n L"
  then obtain L where L: "s = str ''# '' @ L @ [nl]" "nl \<notin> set L" "sublist n L" by blast
  have "strip_prefix (str ''# '') s = Some (L @ [nl])" unfolding L(1) by simp
  then show "is_comment_line n s" using L(2,3) by (simp add: is_comment_line_def)
qed

lemma functionPattern_comment:
  assumes "nl \<notin> set L" "sublist n L"
  shows "functionPattern n (str ''# '' @ L @ nl # t) = simplePattern n t"
proof -
  have d: "dropWhile (\<lambda>c. c \<noteq> nl) (L @ nl # t) = nl # t"
    using assms(1) by (induction L) auto
  have t: "takeWhile (\<lambda>c. c \<noteq> nl) (L @ nl # t) = L"
    using assms(1) by (induction L) auto
  show ?thesis
    unfolding functionPattern_def strip_prefix_append by (simp add: d t assms(2))
qed

lemma comment_cut_prefix: "prefix (comment_cut n X) X"
  by (induction X) auto

lemma comment_cut_eq_iff: "comment_cut n X = X \<longleftrightarrow> (\<forall>u. suffix u X \<longrightarrow> \<not> is_comment_line n u)"
proof (induction X)
  case Nil
  show ?case by (simp add: is_comment_line_def strip_prefix_def str_def)
next
  case (Cons c X)
  then show ?case by (auto simp add: suffix_Cons)
qed

lemma lazy_close_body:
  "\<not> sublist [nl, rbrace] body \<Longrightarrow> lazy_close (body @ nl # rbrace # r) = Some r"
proof (induction body)
  case Nil
  show ?case by simp
next
  case (Cons c body)
  have ns: "\<not> sublist [nl, rbrace] body" using Cons.prems by (auto simp add: sublist_Cons_right)
  show ?case
  proof (cases body)
    case Nil
    then show ?thesis by (simp add: nl_def rbrace_def)
  next
    case (Cons d body')
    have "\<not> (c = nl \<and> d = rbrace)"
    proof
      assume "c = nl \<and> d = rbrace"
      then have "prefix [nl, rbrace] (c # body)" using Cons by simp
      then have "sublist [nl, rbrace] (c # body)" by (rule prefix_imp_sublist)
      with Cons.prems show False by simp
    qed
    then have "lazy_close ((c # body) @ nl # rbrace # r) = lazy_close (body @ nl # rbrace # r)"
      using Cons by auto
    then show ?thesis using Cons.IH [OF ns] by simp
  qed
qed

lemma block_match:
  assumes ws: "list_all is_space (w1 @ w2 @ w3)"
    and body: "\<not> sublist [nl, rbrace] body"
    and e: "e = [nl] \<or> e = [] \<and> (Y = [] \<or> hd Y \<noteq> nl)"
  shows "simplePattern n ((n @ w1 @ lparen # w2 @ rparen # w3 @ lbrace # body @ nl # rbrace # e) @ Y) = Some Y"
proof -
  have w: "\<forall>x\<in>set w1. is_space x" "\<forall>x\<in>set w2. is_space x" "\<forall>x\<in>set w3. is_space x"
    using ws by (auto simp add: list_all_iff)
  have "fn_header n (n @ w1 @ lparen # w2 @ rparen # w3 @ lbrace # (body @ nl # rbrace # e @ Y)) =
          Some (body @ nl # rbrace # e @ Y)"
    unfolding fn_header_Some_iff using w by blast
  moreover have "lazy_close (body @ nl # rbrace # e @ Y) = Some (e @ Y)" by (rule lazy_close_body [OF body])
  moreover have "opt_nl (e @ Y) = Y" using e by (cases Y) (auto simp add: opt_nl_def)
  ultimately show ?thesis by (simp add: simplePattern_def)
qed

section \<open>The two passes on a profile with one opening\<close>

lemma only_opening_iff:
  "only_opening n c t \<Longrightarrow> suffix u c \<Longrightarrow> fn_header n u \<noteq> None \<longleftrightarrow> u = t"
proof -
  assume o: "only_opening n c t" and s: "suffix u c"
  from o have "set (filter (\<lambda>u. fn_header n u \<noteq> None) (suffixes c)) = {t}" by (simp add: only_opening_def)
  then have "\<And>v. (suffix v c \<and> fn_header n v \<noteq> None) = (v = t)" by (auto simp add: in_set_suffixes)
  with s show ?thesis by blast
qed

lemma header_free_iff: "header_free n s \<longleftrightarrow> (\<forall>t. suffix t s \<longrightarrow> fn_header n t = None)"
  by (auto simp add: header_free_def list_all_iff in_set_suffixes)

lemma one_B_nonempty:
  assumes sp: "simplePattern n (B @ Y) = Some Y"
  shows "B \<noteq> []"
  using simplePattern_SomeD(2) [OF sp] by auto

lemma one_no_header_after:
  assumes uniq: "\<And>u. suffix u (X @ B @ Y) \<Longrightarrow> fn_header n u \<noteq> None \<Longrightarrow> u = B @ Y"
    and sp: "simplePattern n (B @ Y) = Some Y"
    and s: "suffix t Y"
  shows "fn_header n t = None"
proof (rule ccontr)
  assume h: "fn_header n t \<noteq> None"
  from s have "suffix t (X @ B @ Y)" by (simp add: suffix_appendI)
  with h have "t = B @ Y" by (rule uniq [rotated])
  with s have "length (B @ Y) \<le> length Y" by (auto dest: suffix_length_le)
  with one_B_nonempty [OF sp] show False by simp
qed

lemma one_no_simple_after:
  assumes uniq: "\<And>u. suffix u (X @ B @ Y) \<Longrightarrow> fn_header n u \<noteq> None \<Longrightarrow> u = B @ Y"
    and sp: "simplePattern n (B @ Y) = Some Y"
    and s: "suffix t Y"
  shows "simplePattern n t = None"
proof (cases "simplePattern n t")
  case None then show ?thesis .
next
  case (Some r)
  from simplePattern_SomeD(1) [OF Some] one_no_header_after [OF uniq sp s] show ?thesis by simp
qed

lemma one_no_function_in:
  assumes uniq: "\<And>u. suffix u (X @ B @ Y) \<Longrightarrow> fn_header n u \<noteq> None \<Longrightarrow> u = B @ Y"
    and s: "suffix t (B @ Y)"
  shows "functionPattern n t = None"
proof (cases "functionPattern n t")
  case None then show ?thesis .
next
  case (Some r)
  from functionPattern_SomeD [OF Some] obtain L t' where
    t: "t = str ''# '' @ L @ nl # t'" and sp': "simplePattern n t' = Some r" by blast
  from t have st: "suffix t' t" by (simp add: suffix_def)
  from st s have "suffix t' (B @ Y)" by (rule suffix_order.trans)
  then have "suffix t' (X @ B @ Y)" by (simp add: suffix_appendI)
  with simplePattern_SomeD(1) [OF sp'] have "t' = B @ Y" by (rule uniq [rotated])
  with t have "length t = length (str ''# '' @ L) + 1 + length (B @ Y)" by simp
  moreover from s have "length t \<le> length (B @ Y)" by (rule suffix_length_le)
  ultimately show ?thesis by simp
qed


lemma pass1_cut:
  assumes uniq: "\<And>u. suffix u (X @ B @ Y) \<Longrightarrow> fn_header n u \<noteq> None \<Longrightarrow> u = B @ Y"
    and sp: "simplePattern n (B @ Y) = Some Y"
  shows "replace_all (functionPattern n) (X @ B @ Y) =
           (if comment_cut n X = X then X @ B @ Y else comment_cut n X @ Y)"
  using uniq
proof (induction X)
  case Nil
  have "replace_all (functionPattern n) (B @ Y) = B @ Y"
    by (rule replace_all_id) (rule one_no_function_in [of "[]", simplified, OF Nil [simplified]])
  then show ?case by simp
next
  case (Cons c X)
  have u': "\<And>u. suffix u (X @ B @ Y) \<Longrightarrow> fn_header n u \<noteq> None \<Longrightarrow> u = B @ Y"
  proof -
    fix u assume "suffix u (X @ B @ Y)" and h: "fn_header n u \<noteq> None"
    then have "suffix u ((c # X) @ B @ Y)" by (simp add: suffix_Cons)
    then show "u = B @ Y" using h by (rule Cons.prems)
  qed
  note fY = replace_all_id [of Y "functionPattern n", OF one_no_function_in [OF u' suffix_appendI]]
  show ?case
  proof (cases "is_comment_line n (c # X)")
    case True
    then obtain L where L: "c # X = str ''# '' @ L @ [nl]" "nl \<notin> set L" "sublist n L"
      unfolding is_comment_line_iff by blast
    have "(c # X) @ B @ Y = str ''# '' @ L @ nl # (B @ Y)" using L(1) by simp
    then have "functionPattern n ((c # X) @ B @ Y) = Some Y"
      using functionPattern_comment [OF L(2,3), of "B @ Y"] sp by simp
    moreover have "length Y < length ((c # X) @ B @ Y)" by simp
    ultimately have "replace_all (functionPattern n) ((c # X) @ B @ Y) = replace_all (functionPattern n) Y"
      by (rule replace_all_hit)
    with fY True show ?thesis by simp
  next
    case False
    have none: "functionPattern n ((c # X) @ B @ Y) = None"
    proof (cases "functionPattern n ((c # X) @ B @ Y)")
      case None then show ?thesis .
    next
      case (Some r)
      from functionPattern_SomeD [OF Some] obtain L t' where
        t: "(c # X) @ B @ Y = str ''# '' @ L @ nl # t'" and L: "nl \<notin> set L" "sublist n L"
        and sp': "simplePattern n t' = Some r" by blast
      have "suffix t' ((c # X) @ B @ Y)" unfolding t by (simp add: suffix_def)
      with simplePattern_SomeD(1) [OF sp'] have t': "t' = B @ Y" by (rule Cons.prems [rotated])
      from t t' have "(c # X) @ (B @ Y) = (str ''# '' @ L @ [nl]) @ (B @ Y)" by simp
      then have cx: "c # X = str ''# '' @ L @ [nl]" by (simp only: append_same_eq)
      with L have "is_comment_line n (c # X)" unfolding is_comment_line_iff by blast
      with False show ?thesis by simp
    qed
    then have r: "replace_all (functionPattern n) ((c # X) @ B @ Y) = c # replace_all (functionPattern n) (X @ B @ Y)"
      by simp
    show ?thesis using Cons.IH [OF u'] False r by simp
  qed
qed

lemma pass2_block:
  assumes uniq: "\<And>u. suffix u (X @ B @ Y) \<Longrightarrow> fn_header n u \<noteq> None \<Longrightarrow> u = B @ Y"
    and sp: "simplePattern n (B @ Y) = Some Y"
  shows "replace_all (simplePattern n) (X @ B @ Y) = X @ Y"
proof -
  have "replace_all (simplePattern n) (X @ (B @ Y)) = X @ replace_all (simplePattern n) (B @ Y)"
  proof (rule replace_all_skip)
    fix u assume s: "suffix u X" and ne: "u \<noteq> []"
    show "simplePattern n (u @ B @ Y) = None"
    proof (cases "simplePattern n (u @ B @ Y)")
      case None then show ?thesis .
    next
      case (Some r)
      from s have "suffix (u @ B @ Y) (X @ B @ Y)" by (auto simp add: suffix_def)
      with simplePattern_SomeD(1) [OF Some] have "u @ B @ Y = B @ Y" by (rule uniq [rotated])
      with ne show ?thesis by simp
    qed
  qed
  also have "replace_all (simplePattern n) (B @ Y) = replace_all (simplePattern n) Y"
    using sp simplePattern_SomeD(2) [OF sp] by (rule replace_all_hit)
  also have "replace_all (simplePattern n) Y = Y"
    by (rule replace_all_id) (rule one_no_simple_after [OF uniq sp])
  finally show ?thesis by simp
qed

lemma header_free_replace:
  assumes "header_free n s"
  shows "replace_all (simplePattern n) s = s"
proof (rule replace_all_id)
  fix t assume "suffix t s"
  with assms have "fn_header n t = None" by (simp add: header_free_iff)
  then show "simplePattern n t = None"
    using simplePattern_SomeD(1) [of n t] by (cases "simplePattern n t") auto
qed

section \<open>Text that collapsing keeps\<close>

lemma collapse_snoc_non_nl: "d \<noteq> nl \<Longrightarrow> collapse_blank (xs @ [d]) = collapse_blank xs @ [d]"
  using collapse_append_non_nl [of d xs "[]"] by simp

lemma collapse_keep:
  assumes "K \<noteq> []" "hd K \<noteq> nl" "last K \<noteq> nl" "collapse_blank K = K"
  shows "collapse_blank (M @ K @ Z) = collapse_blank M @ K @ collapse_blank Z"
proof -
  from assms(1,2) obtain d k where K: "K = d # k" "d \<noteq> nl" by (cases K) auto
  from assms(1,3) obtain k' e where K': "K = k' @ [e]" "e \<noteq> nl"
    by (metis append_butlast_last_id)
  have "collapse_blank (K @ Z) = collapse_blank (k' @ e # Z)" using K'(1) by simp
  also have "\<dots> = collapse_blank k' @ e # collapse_blank Z" by (rule collapse_append_non_nl) (rule K'(2))
  also have "\<dots> = collapse_blank (k' @ [e]) @ collapse_blank Z"
    by (simp add: collapse_snoc_non_nl [OF K'(2)])
  also have "\<dots> = K @ collapse_blank Z" using K'(1) assms(4) by simp
  finally have kz: "collapse_blank (K @ Z) = K @ collapse_blank Z" .
  have "collapse_blank (M @ K @ Z) = collapse_blank (M @ d # (k @ Z))" using K(1) by simp
  also have "\<dots> = collapse_blank M @ d # collapse_blank (k @ Z)" by (rule collapse_append_non_nl) (rule K(2))
  also have "d # collapse_blank (k @ Z) = collapse_blank (K @ Z)" using K by simp
  finally show ?thesis using kz by simp
qed

lemma newline_run:
  assumes "b = [] \<or> hd b \<noteq> nl"
  shows "takeWhile (\<lambda>x. x = nl) (replicate k nl @ b) = replicate k nl"
    and "dropWhile (\<lambda>x. x = nl) (replicate k nl @ b) = b"
  using assms by (induction k) (cases b; auto)+

lemma collapse_run_of:
  assumes b: "b = [] \<or> hd b \<noteq> nl"
  shows "collapse_blank (replicate k nl @ b) = replicate (min k 2) nl @ collapse_blank b"
proof -
  have c0: "collapse_blank b = collapse_blank b" ..
  have s1: "collapse_blank (nl # b) = nl # collapse_blank b"
    using newline_run(1) [OF b, of 1] by (subst collapse_Cons) simp
  have s2: "collapse_blank (nl # nl # b) = nl # nl # collapse_blank b"
    using newline_run(1) [OF b, of 2] s1 by (subst collapse_Cons) (simp add: numeral_2_eq_2)
  show ?thesis
  proof (cases "k < 3")
    case True
    then consider "k = 0" | "k = 1" | "k = 2" by linarith
    then show ?thesis
    proof cases
      case 1 then show ?thesis by simp
    next
      case 2 then show ?thesis using s1 by simp
    next
      case 3 then show ?thesis using s2 by (simp add: numeral_2_eq_2)
    qed
  next
    case False
    then obtain j where k: "k = Suc j" by (cases k) auto
    have t: "takeWhile (\<lambda>x. x = nl) (nl # replicate j nl @ b) = replicate k nl"
      using newline_run(1) [OF b, of k] k by simp
    have d: "dropWhile (\<lambda>x. x = nl) (replicate j nl @ b) = b" by (rule newline_run(2) [OF b])
    from False t have "3 \<le> length (takeWhile (\<lambda>x. x = nl) (nl # replicate j nl @ b))" by simp
    from collapse_run [OF this] d have "collapse_blank (replicate k nl @ b) = nl # nl # collapse_blank b"
      using k by simp
    moreover from False have "min k 2 = 2" by simp
    ultimately show ?thesis by (simp add: numeral_2_eq_2)
  qed
qed

lemma collapse_runs:
  assumes a: "a = [] \<or> last a \<noteq> nl" and b: "b = [] \<or> hd b \<noteq> nl"
  shows "collapse_blank (a @ replicate k nl @ b) = collapse_blank a @ replicate (min k 2) nl @ collapse_blank b"
proof (cases "a = []")
  case True
  then show ?thesis using collapse_run_of [OF b] by simp
next
  case False
  with a obtain a' d where ad: "a = a' @ [d]" "d \<noteq> nl" by (metis append_butlast_last_id)
  have "collapse_blank (a @ replicate k nl @ b) = collapse_blank (a' @ d # (replicate k nl @ b))"
    using ad(1) by simp
  also have "\<dots> = collapse_blank a' @ d # collapse_blank (replicate k nl @ b)"
    by (rule collapse_append_non_nl) (rule ad(2))
  also have "\<dots> = collapse_blank a @ collapse_blank (replicate k nl @ b)"
    using ad by (simp add: collapse_snoc_non_nl)
  finally show ?thesis using collapse_run_of [OF b] by simp
qed

section \<open>Joining paths\<close>

lemma segments_from_head: "\<exists>s ss. segments_from cur p = (cur @ s) # ss"
proof (induction p arbitrary: cur)
  case Nil
  show ?case by simp
next
  case (Cons c p)
  show ?case
  proof (cases "c = slash")
    case True
    then show ?thesis by simp
  next
    case False
    from Cons [of "cur @ [c]"] obtain s ss where "segments_from (cur @ [c]) p = (cur @ c # s) # ss" by auto
    with False show ?thesis by simp
  qed
qed

lemma segments_from_append_slash:
  "segments_from cur (a @ slash # b) = segments_from cur a @ segments_from [] b"
  by (induction a arbitrary: cur) auto

lemma segments_from_no_slash: "slash \<notin> set s \<Longrightarrow> segments_from cur s = [cur @ s]"
  by (induction s arbitrary: cur) auto

lemma join_segments_from: "join_segments (segments_from cur p) = cur @ p"
proof (induction p arbitrary: cur)
  case Nil
  show ?case by simp
next
  case (Cons c p)
  show ?case
  proof (cases "c = slash")
    case True
    obtain s ss where S: "segments_from [] p = s # ss"
      using segments_from_head [of "[]" p] by auto
    have "join_segments (cur # s # ss) = cur @ slash # join_segments (s # ss)" by simp
    also have "join_segments (s # ss) = p" using Cons [of "[]"] S by simp
    finally show ?thesis using True S by simp
  next
    case False
    then show ?thesis using Cons [of "cur @ [c]"] by simp
  qed
qed

lemma normalizeString_clean:
  "list_all clean_segment ss \<Longrightarrow> normalizeString b res ss = res @ ss"
  by (induction ss arbitrary: res) (auto simp: clean_segment_def)

lemma normalizeString_append:
  "normalizeString b res (xs @ ys) = normalizeString b (normalizeString b res xs) ys"
  by (induction xs arbitrary: res) auto

lemma join_segments_nonempty: "ss \<noteq> [] \<Longrightarrow> list_all (\<lambda>s. s \<noteq> []) ss \<Longrightarrow> join_segments ss \<noteq> []"
  by (induction ss rule: join_segments.induct) auto

lemma path_join_plain:
  assumes d: "plain_dir d" and n: "clean_segment name"
  shows "path_join d name = d @ slash # name"
proof -
  obtain ss where S: "segments d = [] # ss" and ne: "ss \<noteq> []" and cl: "list_all clean_segment ss"
    using d by (auto simp: plain_dir_def split: list.splits)
  have dne: "d \<noteq> []" using S ne by (cases d) (auto simp add: segments_def)
  have hd: "hd d = slash"
  proof (rule ccontr)
    assume h: "hd d \<noteq> slash"
    from dne obtain c cs where c: "d = c # cs" by (cases d) auto
    obtain s ss' where "segments_from [c] cs = ([c] @ s) # ss'"
      using segments_from_head [of "[c]" cs] by auto
    with h c have "hd (segments d) \<noteq> []" by (simp add: segments_def)
    then show False using S by simp
  qed
  have nne: "name \<noteq> []" and ns: "slash \<notin> set name" using n by (auto simp: clean_segment_def)
  let ?p = "d @ slash # name"
  have seg: "segments ?p = [] # ss @ [name]"
    using S by (simp add: segments_def segments_from_append_slash segments_from_no_slash [OF ns])
  have cl2: "list_all clean_segment (ss @ [name])" using cl n by simp
  have norm: "normalizeString False [] (segments ?p) = ss @ [name]"
    by (simp add: seg normalizeString_clean [OF cl2])
  have "list_all (\<lambda>s. s \<noteq> []) (ss @ [name])"
    using cl2 by (auto simp: list_all_iff clean_segment_def)
  then have qne: "join_segments (ss @ [name]) \<noteq> []"
    by (intro join_segments_nonempty) auto
  have "?p = join_segments (segments ?p)" by (simp only: segments_def join_segments_from append_Nil)
  also have "\<dots> = slash # join_segments (ss @ [name])"
    unfolding seg using ne by (cases ss) auto
  finally have p: "?p = slash # join_segments (ss @ [name])" .
  have "last name \<in> set name" using nne by (rule last_in_set)
  then have "last name \<noteq> slash" using ns by metis
  then have last: "last ?p \<noteq> slash" using nne by simp
  have hdp: "hd ?p = slash" using hd dne by simp
  have "normalize_path ?p = slash # join_segments (ss @ [name])"
    unfolding normalize_path_def Let_def using hdp last qne norm by simp
  then show ?thesis using dne nne p by (simp add: path_join_def)
qed

lemma path_join_trailing:
  assumes "d \<noteq> []" "name \<noteq> []"
  shows "path_join (d @ [slash]) name = path_join d name"
proof -
  have s: "segments ((d @ [slash]) @ slash # name) = segments d @ [[]] @ segments name"
    using segments_from_append_slash [of "[]" d "[]"]
    by (simp add: segments_def segments_from_append_slash)
  have s': "segments (d @ slash # name) = segments d @ segments name"
    by (simp add: segments_def segments_from_append_slash)
  have n: "normalizeString b [] (segments ((d @ [slash]) @ slash # name)) =
           normalizeString b [] (segments (d @ slash # name))" for b
    unfolding s s' by (simp add: normalizeString_append)
  have h: "hd ((d @ [slash]) @ slash # name) = hd (d @ slash # name)" using assms by simp
  have l: "last ((d @ [slash]) @ slash # name) = last (d @ slash # name)" using assms by simp
  have "normalize_path ((d @ [slash]) @ slash # name) = normalize_path (d @ slash # name)"
    unfolding normalize_path_def Let_def n h l by simp
  then show ?thesis using assms by (simp add: path_join_def)
qed

lemma path_join_home:
  assumes "plain_dir d" "home = d \<or> home = d @ [slash]" "clean_segment name"
  shows "path_join home name = d @ slash # name"
proof -
  have dne: "d \<noteq> []" using assms(1) by (auto simp add: plain_dir_def segments_def)
  have nne: "name \<noteq> []" using assms(3) by (simp add: clean_segment_def)
  from assms(2) have "path_join home name = path_join d name"
    using path_join_trailing [OF dne nne] by auto
  then show ?thesis using path_join_plain [OF assms(1,3)] by simp
qed

section \<open>Evaluation\<close>

lemmas eval_text = str_def join_lines_def nl_def lparen_def rparen_def lbrace_def rbrace_def is_space_def
lemmas eval_patterns = simplePattern_def functionPattern_def fn_header_def fn_open_def expect_def
  strip_prefix_def opt_nl_def sublist_code collapse_Cons remove_blocks_def

lemmas eval_lines = test_lines_def is_line_terminator_def alias_line_def

lemmas eval_path = path_join_def normalize_path_def segments_def slash_def str_def Let_def plain_dir_def
  clean_segment_def
section \<open>Properties of the emitted workflow\<close>

lemma then_run_simps [simp]: "fst (then_run es r) = es @ fst r" "snd (then_run es r) = snd r"
  by (simp_all add: then_run_def)

lemma is_push_error_line [simp]: "\<not> is_upstream_push (error_line m)" "\<not> is_push (error_line m)"
  by (simp_all add: error_line_def)

lemma done_banner_no_push [simp]: "filter is_upstream_push done_banner = []" "filter is_push done_banner = []"
  by (simp_all add: done_banner_def)

lemma gp_push_failed:
  assumes "push_exit w \<noteq> 0"
  shows "(list_ex (\<lambda>l. js_includes l (str ''no upstream'')) (push_output w) \<longrightarrow>
            filter is_upstream_push (fst (gp_push w)) = [GitPushSetUpstream (current_branch w)] \<and>
            filter is_push (fst (gp_push w)) = [GitPush (current_branch w)])
       \<and> (\<not> list_ex (\<lambda>l. js_includes l (str ''no upstream'')) (push_output w) \<longrightarrow>
            filter is_upstream_push (fst (gp_push w)) = [] \<and>
            filter is_push (fst (gp_push w)) = [GitPush (current_branch w)] \<and>
            last (fst (gp_push w)) = Echo (DIM @ subst_lines (push_output w) @ NC) \<and>
            snd (gp_push w) = 1)"
  using assms by (simp add: gp_push_def Let_def)

lemma gp_commit_push:
  assumes "staged_after_add w" "commit_succeeds w"
  shows "filter is_upstream_push (fst (gp_commit w False m)) = filter is_upstream_push (fst (gp_push w))"
    "filter is_push (fst (gp_commit w False m)) = filter is_push (fst (gp_push w))"
    "snd (gp_commit w False m) = snd (gp_push w)"
    "fst (gp_push w) \<noteq> [] \<Longrightarrow> last (fst (gp_commit w False m)) = last (fst (gp_push w))"
  using assms by (simp_all add: gp_commit_def)

lemma gp_push_nonempty: "fst (gp_push w) \<noteq> []"
  by (simp add: gp_push_def Let_def)

lemma gp_run_push:
  assumes "reaches_push w"
  shows "filter is_upstream_push (fst (gp_run cli model w)) = filter is_upstream_push (fst (gp_push w))"
    "filter is_push (fst (gp_run cli model w)) = filter is_push (fst (gp_push w))"
    "snd (gp_run cli model w) = snd (gp_push w)"
    "last (fst (gp_run cli model w)) = last (fst (gp_push w))"
proof -
  obtain rm um where p: "parse_args (argv w) = (rm, um)" by (cases "parse_args (argv w)")
  from assms have c: "staged_after_add w" "commit_succeeds w" by (simp_all add: reaches_push_def)
  from assms have pre: "git_installed w" "inside_work_tree w" "\<not> list_ex (\<lambda>l. l \<noteq> []) (unmerged w)"
    "current_branch w \<noteq> []" "origin_configured w"
    by (simp_all add: reaches_push_def)
  from assms have ch: "(\<not> has_staged w \<and> \<not> has_unstaged w \<and> subst_lines (untracked w) = []) = False"
    by (auto simp add: reaches_push_def)
  from assms p have msg: "um \<noteq> [] \<or> (provider_installed w \<and> provider_exit w = 0 \<and> provider_stdout w \<noteq> [] \<and>
       (rm \<longrightarrow> confirm_reply w \<noteq> str ''n'' \<and> confirm_reply w \<noteq> str ''N''))"
    by (simp add: reaches_push_def)
  note cp = gp_commit_push [OF c] gp_push_nonempty
  have run: "gp_run cli model w =
      then_run
         ([Echo (BOLD @ BLUE @ rule51 @ NC),
           Echo (BOLD @ [128640] @ str '' Git Push with AI Commit Message'' @ NC),
           Echo (BOLD @ BLUE @ rule51 @ NC)])
         (if um \<noteq> [] then
            then_run [Echo [], Echo (GREEN @ [10003] @ NC @ str '' Using provided commit message'')]
              (gp_commit w False um)
          else gp_generate cli model w rm (gp_commit w False))"
    unfolding gp_run_def p by (simp add: pre ch del: then_run_simps)
  have ne: "fst (gp_commit w False m) \<noteq> []" for m by (simp add: gp_commit_def)
  have gen: "filter is_upstream_push (fst (gp_generate cli model w rm (gp_commit w False))) = filter is_upstream_push (fst (gp_push w)) \<and>
       filter is_push (fst (gp_generate cli model w rm (gp_commit w False))) = filter is_push (fst (gp_push w)) \<and>
       snd (gp_generate cli model w rm (gp_commit w False)) = snd (gp_push w) \<and>
       last (fst (gp_generate cli model w rm (gp_commit w False))) = last (fst (gp_push w))" if "um = []"
  proof -
    from that msg have g: "provider_installed w" "provider_exit w = 0" "provider_stdout w \<noteq> []"
       "rm \<Longrightarrow> confirm_reply w \<noteq> str ''n'' \<and> confirm_reply w \<noteq> str ''N''" by simp_all
    show ?thesis
    proof (cases rm)
      case False
      then show ?thesis
        unfolding gp_generate_def generate_message_def review_def
        by (simp add: g cp ne)
    next
      case True
      with g(4) have n: "confirm_reply w \<noteq> str ''n''" "confirm_reply w \<noteq> str ''N''" by simp_all
      show ?thesis
      proof (cases "confirm_reply w = str ''e'' \<or> confirm_reply w = str ''E''")
        case e: True
        show ?thesis
          unfolding gp_generate_def generate_message_def review_def
          by (simp add: g n True e cp ne)
      next
        case e: False
        show ?thesis
          unfolding gp_generate_def generate_message_def review_def
          by (simp add: g n True e cp ne)
      qed
    qed
  qed
  have all: "filter is_upstream_push (fst (gp_run cli model w)) = filter is_upstream_push (fst (gp_push w)) \<and>
       filter is_push (fst (gp_run cli model w)) = filter is_push (fst (gp_push w)) \<and>
       snd (gp_run cli model w) = snd (gp_push w) \<and>
       last (fst (gp_run cli model w)) = last (fst (gp_push w))"
  proof (cases "um = []")
    case True
    have gne: "fst (gp_generate cli model w rm (gp_commit w False)) \<noteq> []"
      using gen [OF True] gp_push_failed
      unfolding gp_generate_def generate_message_def by (simp add: msg [simplified True, simplified])
    from gen [OF True] True show ?thesis unfolding run by (simp add: gne)
  next
    case False
    then show ?thesis unfolding run by (simp add: cp ne)
  qed
  from all show "filter is_upstream_push (fst (gp_run cli model w)) = filter is_upstream_push (fst (gp_push w))"
    by (rule conjunct1)
  from all show "filter is_push (fst (gp_run cli model w)) = filter is_push (fst (gp_push w))"
    by (rule conjunct2 [THEN conjunct1])
  from all show "snd (gp_run cli model w) = snd (gp_push w)"
    by (rule conjunct2 [THEN conjunct2, THEN conjunct1])
  from all show "last (fst (gp_run cli model w)) = last (fst (gp_push w))"
    by (rule conjunct2 [THEN conjunct2, THEN conjunct2])
qed

text \<open>
  C1 (corrected). In a git repository with nothing staged, the commit-only function
  prints the two lines "Nothing to commit - no staged changes" and "Stage changes first:
  git add <files>" and returns at once with status 0; it enters no later state and offers
  nothing else.
\<close>

theorem gc_nothing_staged:
  assumes "git_installed w" "inside_work_tree w" "\<not> has_staged w"
  shows "gc_run cli model w =
    ([Echo (YELLOW @ str ''Nothing to commit'' @ NC @ str '' - no staged changes''),
      Echo (DIM @ str ''Stage changes first: git add <files>'' @ NC)], 0)"
  using assms by (simp add: gc_run_def split: prod.splits)

text \<open>The status is 0, not a failure status, in the sample repository with nothing staged.\<close>

theorem gc_nothing_staged_counterexample:
  "git_installed (sample_world\<lparr>has_staged := False\<rparr>) \<and>
   inside_work_tree (sample_world\<lparr>has_staged := False\<rparr>) \<and>
   \<not> has_staged (sample_world\<lparr>has_staged := False\<rparr>) \<and>
   snd (gc_run claude (str ''haiku'') (sample_world\<lparr>has_staged := False\<rparr>)) = 0"
  by (simp add: gc_run_def sample_world_def split: prod.splits)

theorem gc_nothing_staged_witness:
  "git_installed (sample_world\<lparr>has_staged := False\<rparr>) \<and>
   inside_work_tree (sample_world\<lparr>has_staged := False\<rparr>) \<and>
   \<not> has_staged (sample_world\<lparr>has_staged := False\<rparr>) \<and>
   gc_run claude (str ''haiku'') (sample_world\<lparr>has_staged := False\<rparr>) =
    ([Echo (YELLOW @ str ''Nothing to commit'' @ NC @ str '' - no staged changes''),
      Echo (DIM @ str ''Stage changes first: git add <files>'' @ NC)], 0)"
  using gc_nothing_staged [of "sample_world\<lparr>has_staged := False\<rparr>" claude "str ''haiku''"]
  by (simp add: sample_world_def)

text \<open>
  C4 (corrected). When the push variant generates the message, the provider is run with
  the prompt built from the first 500 lines of the staged diff, the first 500 lines of the
  unstaged diff and the first 50 lines of the untracked file list.
\<close>

theorem gp_collect_limits:
  assumes "reaches_generation w"
  shows "RunProvider (buildCLICommand cli model)
           (gp_prompt (subst_lines (take 500 (staged_diff w)))
                      (subst_lines (take 500 (unstaged_diff w)))
                      (subst_lines (take 50 (untracked w))))
         \<in> set (fst (gp_run cli model w))"
proof -
  obtain rm um where p: "parse_args (argv w) = (rm, um)" by (cases "parse_args (argv w)")
  with assms have um: "um = []" by (simp add: reaches_generation_def)
  from assms p um show ?thesis
    by (simp add: reaches_generation_def gp_run_def gp_generate_def generate_message_def
        gp_collect_def head_def)
qed

text \<open>With 51 untracked files the list that is collected is not the first 500 lines.\<close>

theorem gp_collect_counterexample:
  "length (untracked many_untracked) = 51 \<and>
   snd (snd (gp_collect many_untracked)) \<noteq> subst_lines (head 500 (untracked many_untracked))"
  by code_simp

theorem gp_collect_limits_witness:
  "reaches_generation many_untracked \<and>
   RunProvider (buildCLICommand claude (str ''haiku''))
           (gp_prompt (subst_lines (take 500 (staged_diff many_untracked)))
                      (subst_lines (take 500 (unstaged_diff many_untracked)))
                      (subst_lines (take 50 (untracked many_untracked))))
         \<in> set (fst (gp_run claude (str ''haiku'') many_untracked))"
proof -
  have r: "reaches_generation many_untracked"
    by (simp add: reaches_generation_def many_untracked_def sample_world_def parse_args_def str_def)
  from gp_collect_limits [OF r] r show ?thesis by (rule conjI [rotated])
qed

text \<open>
  C5 (confirmed). When the Push state is reached and the first push fails: if a line of
  its output holds "no upstream", the run has exactly one push that sets the upstream
  (and one plain push); otherwise it has no such push, its last line is the captured
  output of the push, and its status is 1.
\<close>

theorem push_retry_only_without_upstream:
  assumes "reaches_push w" "push_exit w \<noteq> 0"
  shows "(list_ex (\<lambda>l. js_includes l (str ''no upstream'')) (push_output w) \<longrightarrow>
            filter is_upstream_push (fst (gp_run cli model w)) = [GitPushSetUpstream (current_branch w)] \<and>
            filter is_push (fst (gp_run cli model w)) = [GitPush (current_branch w)])
       \<and> (\<not> list_ex (\<lambda>l. js_includes l (str ''no upstream'')) (push_output w) \<longrightarrow>
            filter is_upstream_push (fst (gp_run cli model w)) = [] \<and>
            filter is_push (fst (gp_run cli model w)) = [GitPush (current_branch w)] \<and>
            last (fst (gp_run cli model w)) = Echo (DIM @ subst_lines (push_output w) @ NC) \<and>
            snd (gp_run cli model w) = 1)"
  using gp_push_failed [OF assms(2)] by (simp add: gp_run_push [OF assms(1)])


theorem push_retry_only_without_upstream_witness:
  "reaches_push sample_world \<and> push_exit sample_world \<noteq> 0 \<and>
   list_ex (\<lambda>l. js_includes l (str ''no upstream'')) (push_output sample_world) \<and>
   filter is_upstream_push (fst (gp_run claude (str ''haiku'') sample_world)) = [GitPushSetUpstream (str ''main'')] \<and>
   filter is_push (fst (gp_run claude (str ''haiku'') sample_world)) = [GitPush (str ''main'')]"
proof -
  have r: "reaches_push sample_world"
    by (simp add: reaches_push_def sample_world_def parse_args_def str_def)
  have p: "push_exit sample_world \<noteq> 0" by (simp add: sample_world_def)
  have u: "list_ex (\<lambda>l. js_includes l (str ''no upstream'')) (push_output sample_world)"
    by (simp add: sample_world_def js_includes_def str_def sublist_code)
  have b: "current_branch sample_world = str ''main''" by (simp add: sample_world_def)
  note t = push_retry_only_without_upstream [OF r p, of claude "str ''haiku''"]
  from t have i: "list_ex (\<lambda>l. js_includes l (str ''no upstream'')) (push_output sample_world) \<longrightarrow>
        filter is_upstream_push (fst (gp_run claude (str ''haiku'') sample_world)) = [GitPushSetUpstream (current_branch sample_world)] \<and>
        filter is_push (fst (gp_run claude (str ''haiku'') sample_world)) = [GitPush (current_branch sample_world)]"
    by (rule conjunct1)
  from i u have ab: "filter is_upstream_push (fst (gp_run claude (str ''haiku'') sample_world)) = [GitPushSetUpstream (current_branch sample_world)] \<and>
        filter is_push (fst (gp_run claude (str ''haiku'') sample_world)) = [GitPush (current_branch sample_world)]"
    by (rule mp)
  show ?thesis
    apply (rule conjI, rule r, rule conjI, rule p, rule conjI, rule u)
    by (rule ab [unfolded b])
qed

section \<open>Properties of the headless test, the catalogue and the profile locator\<close>

text \<open>
  C6 (corrected). A child that closed is classified in this order: (1) if the combined
  output is not empty after white space is trimmed from both ends, success with the
  standard output, or with the standard error when the standard output is empty;
  (2) otherwise, if the exit code is 0, success with "CLI responded successfully";
  (3) otherwise failure with the standard error, or with "CLI exited with code N" when
  the standard error is empty.
\<close>

theorem headless_classification:
  "on_close stdout stderr code =
    (if trim (toLowerCase (stdout @ stderr)) \<noteq> [] then TestSuccess (if stdout \<noteq> [] then stdout else stderr)
     else if code = Some 0 then TestSuccess (str ''CLI responded successfully'')
     else TestFailure (if stderr \<noteq> [] then stderr else str ''CLI exited with code '' @ code_text code))"
  by (simp add: on_close_def or_else_def Let_def)

text \<open>An output of one space has length 1, and the result with exit code 1 is a failure.\<close>

theorem headless_blank_output_counterexample:
  "0 < length (str '' '' @ []) \<and>
   testHeadlessMode (Closed (str '' '') [] (Some 1)) = TestFailure (str ''CLI exited with code 1'')"
  by (simp add: testHeadlessMode_def on_close_def or_else_def Let_def trim_def toLowerCase_def str_def is_space_def code_text_def dec.simps)

text \<open>
  C7 (confirmed). For every provider of the catalogue: without a model flag the command
  is the binary, the headless flag and the prompt reference, whatever the model; with
  extra flags the command ends with them, once, after the model.
\<close>

theorem command_construction:
  "\<forall>cli \<in> set CLI_INFO.
     (modelFlag cli = None \<longrightarrow>
        (\<forall>model. buildCLICommand cli model = command cli @ str '' '' @ headlessFlag cli @ str '' '' @ prompt_ref)) \<and>
     (\<forall>flags. extraFlags cli = Some flags \<longrightarrow>
        (\<forall>model. buildCLICommand cli model =
           command cli @ str '' '' @ headlessFlag cli @ str '' '' @ prompt_ref @ str '' '' @
           the (modelFlag cli) @ str '' '' @ model @ str '' '' @ flags))"
  by (simp add: CLI_INFO_def claude_def gemini_def copilot_def opencode_def aider_def buildCLICommand_def str_def)

theorem command_construction_witness:
  "copilot \<in> set CLI_INFO \<and> modelFlag copilot = None \<and>
   buildCLICommand copilot (str ''gpt-5'') = str ''copilot --prompt '' @ [34] @ str ''$prompt'' @ [34] \<and>
   aider \<in> set CLI_INFO \<and> extraFlags aider = Some (str ''--yes-always --no-auto-commits'') \<and>
   buildCLICommand aider (str ''gpt-5'') =
     str ''aider --message '' @ [34] @ str ''$prompt'' @ [34] @ str '' --model gpt-5 --yes-always --no-auto-commits''"
proof -
  have c: "copilot \<in> set CLI_INFO" and a: "aider \<in> set CLI_INFO" by (simp_all add: CLI_INFO_def)
  have m: "modelFlag copilot = None" by (simp add: copilot_def)
  have e: "extraFlags aider = Some (str ''--yes-always --no-auto-commits'')" by (simp add: aider_def)
  from command_construction c m
  have "buildCLICommand copilot (str ''gpt-5'') = command copilot @ str '' '' @ headlessFlag copilot @ str '' '' @ prompt_ref"
    by blast
  then have 1: "buildCLICommand copilot (str ''gpt-5'') = str ''copilot --prompt '' @ [34] @ str ''$prompt'' @ [34]"
    by (simp add: copilot_def prompt_ref_def str_def)
  from command_construction a e
  have "buildCLICommand aider (str ''gpt-5'') =
           command aider @ str '' '' @ headlessFlag aider @ str '' '' @ prompt_ref @ str '' '' @
           the (modelFlag aider) @ str '' '' @ str ''gpt-5'' @ str '' '' @ str ''--yes-always --no-auto-commits''"
    by blast
  then have 2: "buildCLICommand aider (str ''gpt-5'') =
     str ''aider --message '' @ [34] @ str ''$prompt'' @ [34] @ str '' --model gpt-5 --yes-always --no-auto-commits''"
    by (simp add: aider_def prompt_ref_def str_def)
  from c m 1 a e 2 show ?thesis by (intro conjI)
qed

text \<open>
  C9 (confirmed). The locator returns a shell and a path for every host and file system,
  the home directory and \<open>path.join\<close> being taken as they are modelled: zsh with
  \<open>.zshrc\<close> joined to the home directory when \<open>SHELL\<close> holds "zsh", whether or not the
  file exists; otherwise bash with \<open>.bashrc\<close> if that file is accessible, else
  \<open>.bash_profile\<close> if that one is, else \<open>.bashrc\<close>. For a home directory \<open>d\<close> of plain
  segments (\<open>/home/u\<close>), given with or without a trailing separator, the joined paths are
  \<open>d/.zshrc\<close>, \<open>d/.bashrc\<close> and \<open>d/.bash_profile\<close>.
\<close>

theorem detect_shell_profile_cases:
  "detectShellProfile h fs =
     (if js_includes (case shell_var h of None \<Rightarrow> [] | Some s \<Rightarrow> s) (str ''zsh'')
      then (Zsh, path_join (homedir h) (str ''.zshrc''))
      else if access fs (path_join (homedir h) (str ''.bashrc''))
        then (Bash, path_join (homedir h) (str ''.bashrc''))
      else if access fs (path_join (homedir h) (str ''.bash_profile''))
        then (Bash, path_join (homedir h) (str ''.bash_profile''))
      else (Bash, path_join (homedir h) (str ''.bashrc''))) \<and>
   (\<forall>d. plain_dir d \<and> (homedir h = d \<or> homedir h = d @ [slash]) \<longrightarrow>
      detectShellProfile h fs =
        (if js_includes (case shell_var h of None \<Rightarrow> [] | Some s \<Rightarrow> s) (str ''zsh'')
         then (Zsh, d @ str ''/.zshrc'')
         else if access fs (d @ str ''/.bashrc'') then (Bash, d @ str ''/.bashrc'')
         else if access fs (d @ str ''/.bash_profile'') then (Bash, d @ str ''/.bash_profile'')
         else (Bash, d @ str ''/.bashrc'')))"
proof -
  have g: "detectShellProfile h fs =
     (if js_includes (case shell_var h of None \<Rightarrow> [] | Some s \<Rightarrow> s) (str ''zsh'')
      then (Zsh, path_join (homedir h) (str ''.zshrc''))
      else if access fs (path_join (homedir h) (str ''.bashrc''))
        then (Bash, path_join (homedir h) (str ''.bashrc''))
      else if access fs (path_join (homedir h) (str ''.bash_profile''))
        then (Bash, path_join (homedir h) (str ''.bash_profile''))
      else (Bash, path_join (homedir h) (str ''.bashrc'')))"
    by (simp add: detectShellProfile_def Let_def)
  have p: "detectShellProfile h fs =
        (if js_includes (case shell_var h of None \<Rightarrow> [] | Some s \<Rightarrow> s) (str ''zsh'')
         then (Zsh, d @ str ''/.zshrc'')
         else if access fs (d @ str ''/.bashrc'') then (Bash, d @ str ''/.bashrc'')
         else if access fs (d @ str ''/.bash_profile'') then (Bash, d @ str ''/.bash_profile'')
         else (Bash, d @ str ''/.bashrc''))"
    if d: "plain_dir d" and hd: "homedir h = d \<or> homedir h = d @ [slash]" for d
  proof -
    have c: "clean_segment (str ''.zshrc'')" "clean_segment (str ''.bashrc'')"
      "clean_segment (str ''.bash_profile'')"
      by (simp_all add: clean_segment_def slash_def str_def)
    have j: "path_join (homedir h) (str ''.zshrc'') = d @ str ''/.zshrc''"
      "path_join (homedir h) (str ''.bashrc'') = d @ str ''/.bashrc''"
      "path_join (homedir h) (str ''.bash_profile'') = d @ str ''/.bash_profile''"
      using c [THEN path_join_home [OF d hd]] by (simp_all add: slash_def str_def)
    show ?thesis unfolding g j ..
  qed
  from g p show ?thesis by blast
qed

theorem detect_shell_profile_cases_witness:
  "plain_dir (str ''/home/u'') \<and>
   homedir trailing_separator_host = str ''/home/u'' @ [slash] \<and>
   detectShellProfile trailing_separator_host empty_fs = (Zsh, str ''/home/u/.zshrc'') \<and>
   detectShellProfile bash_host empty_fs = (Bash, str ''/home/u/.bashrc'')"
proof -
  have d: "plain_dir (str ''/home/u'')" by (simp add: eval_path)
  have t: "homedir trailing_separator_host = str ''/home/u'' @ [slash]"
    by (simp add: trailing_separator_host_def slash_def str_def)
  have b: "homedir bash_host = str ''/home/u''" by (simp add: bash_host_def)
  from detect_shell_profile_cases [of trailing_separator_host empty_fs] d t
  have "detectShellProfile trailing_separator_host empty_fs =
        (if js_includes (case shell_var trailing_separator_host of None \<Rightarrow> [] | Some s \<Rightarrow> s) (str ''zsh'')
         then (Zsh, str ''/home/u'' @ str ''/.zshrc'')
         else if access empty_fs (str ''/home/u'' @ str ''/.bashrc'') then (Bash, str ''/home/u'' @ str ''/.bashrc'')
         else if access empty_fs (str ''/home/u'' @ str ''/.bash_profile'') then (Bash, str ''/home/u'' @ str ''/.bash_profile'')
         else (Bash, str ''/home/u'' @ str ''/.bashrc''))" by blast
  then have 1: "detectShellProfile trailing_separator_host empty_fs = (Zsh, str ''/home/u/.zshrc'')"
    by (simp add: trailing_separator_host_def js_includes_def sublist_code str_def)
  from detect_shell_profile_cases [of bash_host empty_fs] d b
  have "detectShellProfile bash_host empty_fs =
        (if js_includes (case shell_var bash_host of None \<Rightarrow> [] | Some s \<Rightarrow> s) (str ''zsh'')
         then (Zsh, str ''/home/u'' @ str ''/.zshrc'')
         else if access empty_fs (str ''/home/u'' @ str ''/.bashrc'') then (Bash, str ''/home/u'' @ str ''/.bashrc'')
         else if access empty_fs (str ''/home/u'' @ str ''/.bash_profile'') then (Bash, str ''/home/u'' @ str ''/.bash_profile'')
         else (Bash, str ''/home/u'' @ str ''/.bashrc''))" by blast
  then have 2: "detectShellProfile bash_host empty_fs = (Bash, str ''/home/u/.bashrc'')"
    by (simp add: bash_host_def empty_fs_def access_def js_includes_def sublist_code str_def)
  from d t 1 2 show ?thesis by (intro conjI)
qed
section \<open>Properties of the installer\<close>

lemma unwritable_removeExistingAlias [simp]:
  "unwritable (snd (removeExistingAlias fs p n)) = unwritable fs"
  by (simp add: removeExistingAlias_def readFile_def writeFile_def split: option.splits sum.splits)

lemma unwritable_backupProfile [simp]:
  "unwritable (snd (backupProfile h fs p)) = unwritable fs"
  by (simp add: backupProfile_def copyFile_def readFile_def writeFile_def Let_def split: option.splits sum.splits)

lemma backup_path_differs: "p @ str ''.backup.'' @ d \<noteq> p"
  by (simp add: str_def)

lemma files_backupProfile [simp]:
  "files (snd (backupProfile h fs p)) p = files fs p"
  using backup_path_differs [of p "dec (now_ms h)"]
  by (simp add: backupProfile_def copyFile_def readFile_def writeFile_def Let_def split: option.splits sum.splits)

lemma backupProfile_cases:
  "(fst (backupProfile h fs p) = None \<longleftrightarrow>
      files fs p = None \<or> p \<in> unreadable fs \<or> p @ str ''.backup.'' @ dec (now_ms h) \<in> unwritable fs) \<and>
   (fst (backupProfile h fs p) = None \<longrightarrow> snd (backupProfile h fs p) = fs) \<and>
   (fst (backupProfile h fs p) \<noteq> None \<longrightarrow>
      backupProfile h fs p =
        (Some (p @ str ''.backup.'' @ dec (now_ms h)),
         fs\<lparr>files := (files fs)(p @ str ''.backup.'' @ dec (now_ms h) \<mapsto> the (files fs p))\<rparr>))"
  by (simp add: backupProfile_def copyFile_def readFile_def writeFile_def Let_def split: option.splits sum.splits)

lemma removeExistingAlias_files:
  assumes "aliasExists fs p n" "p \<notin> unwritable fs"
  shows "snd (removeExistingAlias fs p n) = fs\<lparr>files := (files fs)(p \<mapsto> remove_blocks n (the (files fs p)))\<rparr>"
  using assms
  by (auto simp add: removeExistingAlias_def aliasExists_def readFile_def writeFile_def split: option.splits if_splits)

lemma aliasExists_readable:
  "aliasExists fs p n \<Longrightarrow> files fs p \<noteq> None \<and> p \<notin> unreadable fs"
  by (auto simp add: aliasExists_def readFile_def split: option.splits if_splits)

lemma installAliases_writes:
  assumes "detectShellProfile h fs = (shell, profile)"
    and "profile \<notin> unwritable fs"
    and "overwrite \<or> \<not> (aliasExists fs profile gpAlias \<or> aliasExists fs profile gcAlias)"
    and "backupPath = profile @ str ''.backup.'' @ dec (now_ms h)"
    and "base = (case files fs profile of
                   None \<Rightarrow> []
                 | Some c \<Rightarrow>
                     (if overwrite \<and> aliasExists fs profile gcAlias then remove_blocks gcAlias else id)
                       ((if overwrite \<and> aliasExists fs profile gpAlias then remove_blocks gpAlias else id) c))"
  shows "fst (installAliases h fs gpAlias gcAlias cli model overwrite) = Installed shell profile"
    and "files (snd (installAliases h fs gpAlias gcAlias cli model overwrite)) profile =
           Some (base @ aliasContent gpAlias gcAlias cli model (iso_time h))"
    and "files (snd (installAliases h fs gpAlias gcAlias cli model overwrite)) backupPath =
           (if files fs profile = None \<or> profile \<in> unreadable fs \<or> backupPath \<in> unwritable fs
            then files fs backupPath else Some base)"
    and "\<forall>q. q \<noteq> profile \<and> q \<noteq> backupPath \<longrightarrow>
            files (snd (installAliases h fs gpAlias gcAlias cli model overwrite)) q = files fs q"
proof -
  define rgp where "rgp = (if overwrite \<and> aliasExists fs profile gpAlias then remove_blocks gpAlias else id)"
  define rgc where "rgc = (if overwrite \<and> aliasExists fs profile gcAlias then remove_blocks gcAlias else id)"
  define fs1 where "fs1 = (if overwrite \<and> aliasExists fs profile gpAlias then snd (removeExistingAlias fs profile gpAlias) else fs)"
  define fs2 where "fs2 = (if overwrite \<and> aliasExists fs profile gcAlias then snd (removeExistingAlias fs1 profile gcAlias) else fs1)"
  define fs3 where "fs3 = snd (backupProfile h fs2 profile)"
  define T where "T = aliasContent gpAlias gcAlias cli model (iso_time h)"
  have bne: "backupPath \<noteq> profile" unfolding assms(4) by (rule backup_path_differs)
  have base: "base = (case files fs profile of None \<Rightarrow> [] | Some c \<Rightarrow> rgc (rgp c))"
    unfolding assms(5) rgp_def rgc_def ..
  have fs1: "fs1 = fs\<lparr>files := (case files fs profile of None \<Rightarrow> files fs
                                   | Some c \<Rightarrow> (files fs)(profile \<mapsto> rgp c))\<rparr>"
  proof (cases "overwrite \<and> aliasExists fs profile gpAlias")
    case True
    then have a: "aliasExists fs profile gpAlias" by simp
    from aliasExists_readable [OF a] obtain c where c: "files fs profile = Some c" by auto
    show ?thesis
      using True c removeExistingAlias_files [OF a assms(2)] by (simp add: fs1_def rgp_def)
  next
    case False
    have rg: "rgp = id" unfolding rgp_def by (rule if_not_P [OF False])
    have e: "fs1 = fs" unfolding fs1_def by (rule if_not_P [OF False])
    show ?thesis unfolding e rg by (cases "files fs profile") (simp_all add: map_upd_triv)
  qed
  have u1: "unwritable fs1 = unwritable fs" "unreadable fs1 = unreadable fs" by (simp_all add: fs1)
  have ex1: "aliasExists fs profile gcAlias \<Longrightarrow> files fs1 profile \<noteq> None \<and> profile \<notin> unreadable fs1"
    using aliasExists_readable [of fs profile gcAlias] by (auto simp add: fs1)
  have fs2: "fs2 = fs\<lparr>files := (case files fs profile of None \<Rightarrow> files fs
                                   | Some c \<Rightarrow> (files fs)(profile \<mapsto> rgc (rgp c)))\<rparr>"
  proof (cases "overwrite \<and> aliasExists fs profile gcAlias")
    case True
    then have a: "aliasExists fs profile gcAlias" by simp
    from aliasExists_readable [OF a] obtain c where c: "files fs profile = Some c" and r: "profile \<notin> unreadable fs" by auto
    have "snd (removeExistingAlias fs1 profile gcAlias) =
            fs1\<lparr>files := (files fs1)(profile \<mapsto> remove_blocks gcAlias (rgp c))\<rparr>"
      using c r assms(2) by (simp add: removeExistingAlias_def readFile_def writeFile_def fs1)
    then show ?thesis using True c by (simp add: fs2_def rgc_def fs1)
  next
    case False
    have rg: "rgc = id" unfolding rgc_def by (rule if_not_P [OF False])
    have e: "fs2 = fs1" unfolding fs2_def by (rule if_not_P [OF False])
    show ?thesis unfolding e fs1 rg by (cases "files fs profile") simp_all
  qed
  have f2: "files fs2 profile = (case files fs profile of None \<Rightarrow> None | Some c \<Rightarrow> Some base)"
    by (cases "files fs profile") (simp_all add: fs2 base)
  have f2o: "\<And>q. q \<noteq> profile \<Longrightarrow> files fs2 q = files fs q"
    by (cases "files fs profile") (simp_all add: fs2)
  have u2: "unwritable fs2 = unwritable fs" "unreadable fs2 = unreadable fs" by (simp_all add: fs2)
  have fs3: "fs3 = (if files fs profile = None \<or> profile \<in> unreadable fs \<or> backupPath \<in> unwritable fs
                   then fs2 else fs2\<lparr>files := (files fs2)(backupPath \<mapsto> base)\<rparr>)"
    unfolding fs3_def assms(4)
    using f2 u2
    by (cases "files fs profile")
      (simp_all add: backupProfile_def copyFile_def readFile_def writeFile_def Let_def)
  have w: "profile \<notin> unwritable fs3" using assms(2) u2 by (simp add: fs3)
  have run: "installAliases h fs gpAlias gcAlias cli model overwrite =
      (case appendFile fs3 profile T of
               Inl e \<Rightarrow> (Failed e, fs3)
             | Inr fs4 \<Rightarrow> (Installed shell profile, fs4))"
    using assms(3) unfolding installAliases_def assms(1) fs3_def fs2_def fs1_def T_def
    by (auto simp add: Let_def)
  have f3: "files fs3 profile = files fs2 profile" using bne by (simp add: fs3)
  have res: "installAliases h fs gpAlias gcAlias cli model overwrite =
      (Installed shell profile, fs3\<lparr>files := (files fs3)(profile \<mapsto> base @ T)\<rparr>)"
    unfolding run using w f3 f2 base
    by (cases "files fs profile") (simp_all add: appendFile_def)
  have i1: "fst (installAliases h fs gpAlias gcAlias cli model overwrite) = Installed shell profile"
    by (simp add: res)
  have i2: "files (snd (installAliases h fs gpAlias gcAlias cli model overwrite)) profile =
           Some (base @ aliasContent gpAlias gcAlias cli model (iso_time h))"
    by (simp add: res T_def)
  have i3: "files (snd (installAliases h fs gpAlias gcAlias cli model overwrite)) backupPath =
           (if files fs profile = None \<or> profile \<in> unreadable fs \<or> backupPath \<in> unwritable fs
            then files fs backupPath else Some base)"
    using bne f2o [OF bne] by (simp add: res fs3)
  have i4: "\<forall>q. q \<noteq> profile \<and> q \<noteq> backupPath \<longrightarrow>
            files (snd (installAliases h fs gpAlias gcAlias cli model overwrite)) q = files fs q"
    using f2o by (simp add: res fs3)
  from i1 i2 i3 i4 show
    "fst (installAliases h fs gpAlias gcAlias cli model overwrite) = Installed shell profile"
    "files (snd (installAliases h fs gpAlias gcAlias cli model overwrite)) profile =
           Some (base @ aliasContent gpAlias gcAlias cli model (iso_time h))"
    "files (snd (installAliases h fs gpAlias gcAlias cli model overwrite)) backupPath =
           (if files fs profile = None \<or> profile \<in> unreadable fs \<or> backupPath \<in> unwritable fs
            then files fs backupPath else Some base)"
    "\<forall>q. q \<noteq> profile \<and> q \<noteq> backupPath \<longrightarrow>
            files (snd (installAliases h fs gpAlias gcAlias cli model overwrite)) q = files fs q"
    by blast+
qed

text \<open>
  C8 (confirmed). \<open>backupProfile\<close> returns no path exactly when the source is missing or
  unreadable or the backup cannot be written, and then leaves the file system as it was;
  otherwise it returns the path \<open>profile.backup.<milliseconds>\<close>, and the file at that
  path now holds the content of the source, nothing else being changed. Whatever the backup
  did, \<open>installAliases\<close> goes on: for alias names of letters, digits and underscores, when
  the profile can be written and no conflict stops it, it reports success; the profile then
  holds its former content (after the removals of an overwrite; nothing when the file was
  missing) followed by the appended block; the backup path holds that former content when
  the backup could be made and is untouched otherwise; every other file is as before.
\<close>

theorem backup_never_blocks:
  assumes "word_name gpAlias" "word_name gcAlias"
    and "detectShellProfile h fs = (shell, profile)"
    and "profile \<notin> unwritable fs"
    and "overwrite \<or> \<not> (aliasExists fs profile gpAlias \<or> aliasExists fs profile gcAlias)"
    and "backupPath = profile @ str ''.backup.'' @ dec (now_ms h)"
    and "base = (case files fs profile of
                   None \<Rightarrow> []
                 | Some c \<Rightarrow>
                     (if overwrite \<and> aliasExists fs profile gcAlias then remove_blocks gcAlias else id)
                       ((if overwrite \<and> aliasExists fs profile gpAlias then remove_blocks gpAlias else id) c))"
  shows "(fst (backupProfile h fs' p) = None \<longleftrightarrow>
            files fs' p = None \<or> p \<in> unreadable fs' \<or> p @ str ''.backup.'' @ dec (now_ms h) \<in> unwritable fs') \<and>
         (fst (backupProfile h fs' p) = None \<longrightarrow> snd (backupProfile h fs' p) = fs') \<and>
         (fst (backupProfile h fs' p) \<noteq> None \<longrightarrow>
            backupProfile h fs' p =
              (Some (p @ str ''.backup.'' @ dec (now_ms h)),
               fs'\<lparr>files := (files fs')(p @ str ''.backup.'' @ dec (now_ms h) \<mapsto> the (files fs' p))\<rparr>)) \<and>
         fst (installAliases h fs gpAlias gcAlias cli model overwrite) = Installed shell profile \<and>
         files (snd (installAliases h fs gpAlias gcAlias cli model overwrite)) profile =
           Some (base @ aliasContent gpAlias gcAlias cli model (iso_time h)) \<and>
         files (snd (installAliases h fs gpAlias gcAlias cli model overwrite)) backupPath =
           (if files fs profile = None \<or> profile \<in> unreadable fs \<or> backupPath \<in> unwritable fs
            then files fs backupPath else Some base) \<and>
         (\<forall>q. q \<noteq> profile \<and> q \<noteq> backupPath \<longrightarrow>
            files (snd (installAliases h fs gpAlias gcAlias cli model overwrite)) q = files fs q)"
proof -
  note b = backupProfile_cases [of h fs' p]
  note i = installAliases_writes [OF assms(3-7), of cli model]
  from b i show ?thesis by (intro conjI) (elim conjE, assumption)+
qed

theorem backup_never_blocks_witness:
  "word_name (str ''gp'') \<and> word_name (str ''gc'') \<and>
   detectShellProfile bash_host empty_fs = (Bash, str ''/home/u/.bashrc'') \<and>
   str ''/home/u/.bashrc'' \<notin> unwritable empty_fs \<and>
   fst (backupProfile bash_host empty_fs (str ''/home/u/.bashrc'')) = None \<and>
   backupProfile bash_host reload_function_fs (str ''/home/u/.zshrc'') =
     (Some (str ''/home/u/.zshrc'' @ str ''.backup.'' @ dec (now_ms bash_host)),
      reload_function_fs\<lparr>files := (files reload_function_fs)
        (str ''/home/u/.zshrc'' @ str ''.backup.'' @ dec (now_ms bash_host) \<mapsto> reload_function_profile)\<rparr>) \<and>
   fst (installAliases bash_host empty_fs (str ''gp'') (str ''gc'') claude (str ''haiku'') False) =
     Installed Bash (str ''/home/u/.bashrc'') \<and>
   files (snd (installAliases bash_host empty_fs (str ''gp'') (str ''gc'') claude (str ''haiku'') False))
       (str ''/home/u/.bashrc'') =
     Some (aliasContent (str ''gp'') (str ''gc'') claude (str ''haiku'') (iso_time bash_host)) \<and>
   files (snd (installAliases bash_host empty_fs (str ''gp'') (str ''gc'') claude (str ''haiku'') False))
       (str ''/home/u/.bashrc'' @ str ''.backup.'' @ dec (now_ms bash_host)) = None"
proof -
  have wp: "word_name (str ''gp'')" and wc: "word_name (str ''gc'')"
    by (simp_all add: word_name_def word_char_def str_def)
  have d: "detectShellProfile bash_host empty_fs = (Bash, str ''/home/u/.bashrc'')"
    by (simp add: detectShellProfile_def bash_host_def empty_fs_def access_def js_includes_def
        sublist_code eval_path)
  have w: "str ''/home/u/.bashrc'' \<notin> unwritable empty_fs" by (simp add: empty_fs_def)
  have e: "False \<or> \<not> (aliasExists empty_fs (str ''/home/u/.bashrc'') (str ''gp'') \<or>
                        aliasExists empty_fs (str ''/home/u/.bashrc'') (str ''gc''))"
    by (simp add: aliasExists_def readFile_def empty_fs_def)
  have n: "files empty_fs (str ''/home/u/.bashrc'') = None" by (simp add: empty_fs_def)
  have base: "[] = (case files empty_fs (str ''/home/u/.bashrc'') of
                   None \<Rightarrow> []
                 | Some c \<Rightarrow>
                     (if False \<and> aliasExists empty_fs (str ''/home/u/.bashrc'') (str ''gc'')
                      then remove_blocks (str ''gc'') else id)
                       ((if False \<and> aliasExists empty_fs (str ''/home/u/.bashrc'') (str ''gp'')
                         then remove_blocks (str ''gp'') else id) c))"
    by (simp add: n)
  note t1 = backup_never_blocks [OF wp wc d w e refl base, of empty_fs "str ''/home/u/.bashrc''" claude "str ''haiku''"]
  note t2 = backup_never_blocks [OF wp wc d w e refl base, of reload_function_fs "str ''/home/u/.zshrc''" claude "str ''haiku''"]
  from t1 n have 1: "fst (backupProfile bash_host empty_fs (str ''/home/u/.bashrc'')) = None" by blast
  have ok: "\<not> (files reload_function_fs (str ''/home/u/.zshrc'') = None \<or>
                str ''/home/u/.zshrc'' \<in> unreadable reload_function_fs \<or>
                str ''/home/u/.zshrc'' @ str ''.backup.'' @ dec (now_ms bash_host) \<in> unwritable reload_function_fs)"
    by (simp add: reload_function_fs_def)
  from t2 ok have "backupProfile bash_host reload_function_fs (str ''/home/u/.zshrc'') =
     (Some (str ''/home/u/.zshrc'' @ str ''.backup.'' @ dec (now_ms bash_host)),
      reload_function_fs\<lparr>files := (files reload_function_fs)
        (str ''/home/u/.zshrc'' @ str ''.backup.'' @ dec (now_ms bash_host) \<mapsto>
           the (files reload_function_fs (str ''/home/u/.zshrc'')))\<rparr>)" by blast
  then have 2: "backupProfile bash_host reload_function_fs (str ''/home/u/.zshrc'') =
     (Some (str ''/home/u/.zshrc'' @ str ''.backup.'' @ dec (now_ms bash_host)),
      reload_function_fs\<lparr>files := (files reload_function_fs)
        (str ''/home/u/.zshrc'' @ str ''.backup.'' @ dec (now_ms bash_host) \<mapsto> reload_function_profile)\<rparr>)"
    by (simp add: reload_function_fs_def)
  from t1 have 3: "fst (installAliases bash_host empty_fs (str ''gp'') (str ''gc'') claude (str ''haiku'') False) =
     Installed Bash (str ''/home/u/.bashrc'')" by blast
  from t1 have "files (snd (installAliases bash_host empty_fs (str ''gp'') (str ''gc'') claude (str ''haiku'') False))
       (str ''/home/u/.bashrc'') =
     Some ([] @ aliasContent (str ''gp'') (str ''gc'') claude (str ''haiku'') (iso_time bash_host))" by blast
  then have 4: "files (snd (installAliases bash_host empty_fs (str ''gp'') (str ''gc'') claude (str ''haiku'') False))
       (str ''/home/u/.bashrc'') =
     Some (aliasContent (str ''gp'') (str ''gc'') claude (str ''haiku'') (iso_time bash_host))" by simp
  from t1 have "files (snd (installAliases bash_host empty_fs (str ''gp'') (str ''gc'') claude (str ''haiku'') False))
       (str ''/home/u/.bashrc'' @ str ''.backup.'' @ dec (now_ms bash_host)) =
       (if files empty_fs (str ''/home/u/.bashrc'') = None \<or> str ''/home/u/.bashrc'' \<in> unreadable empty_fs \<or>
           str ''/home/u/.bashrc'' @ str ''.backup.'' @ dec (now_ms bash_host) \<in> unwritable empty_fs
        then files empty_fs (str ''/home/u/.bashrc'' @ str ''.backup.'' @ dec (now_ms bash_host)) else Some [])"
    by blast
  then have 5: "files (snd (installAliases bash_host empty_fs (str ''gp'') (str ''gc'') claude (str ''haiku'') False))
       (str ''/home/u/.bashrc'' @ str ''.backup.'' @ dec (now_ms bash_host)) = None"
    by (simp add: empty_fs_def)
  from wp wc d w 1 2 3 4 5 show ?thesis by (intro conjI)
qed

lemma alias_line_at:
  assumes "word_name n"
  shows "alias_line n (str ''alias '' @ n @ str ''='' @ r) = Some r"
proof -
  from assms obtain a n' where n: "n = a # n'" "word_char a" by (cases n) (auto simp add: word_name_def)
  have s: "is_space 32" by (simp add: is_space_def)
  have "strip_prefix (str ''alias'') (str ''alias '' @ n @ str ''='' @ r) = Some (32 # n @ str ''='' @ r)"
    by (simp add: strip_prefix_Some_iff str_def)
  moreover have "dropWhile is_space (n @ str ''='' @ r) = n @ str ''='' @ r" using n by simp
  moreover have "strip_prefix (n @ str ''='') (n @ str ''='' @ r) = Some r" by (simp add: strip_prefix_Some_iff)
  ultimately show ?thesis by (simp add: alias_line_def s)
qed

lemma reloadContent_split:
  "reloadContent n p ts =
     ([nl] @ str ''# '' @ rule51 @ [nl] @ str ''# Shell Reload Alias - Added by @lvmk/quick-alias'' @ [nl] @
      str ''# Generated: '' @ ts @ [nl] @ str ''# '' @ rule51 @ [nl]) @
     (str ''alias '' @ n @ str ''='' @ [34] @ str ''source '' @ p @ [34] @ [nl])"
  by (simp add: reloadContent_def join_lines_def)

text \<open>
  C10 (confirmed). For a profile in which the name opens a function at a line start and no
  line starts with \<open>alias NAME=\<close>: the reload detector reports the name, the removal cuts
  nothing (it only collapses line breaks), and \<open>installReloadAlias\<close> with overwrite appends
  its block, so that afterwards both the function opening and an alias line for the name
  are in the profile.
\<close>

theorem reload_overwrite_keeps_function:
  assumes "word_name name"
    and "detectShellProfile h fs = (shell, profile)"
    and "files fs profile = Some content" "profile \<notin> unreadable fs" "profile \<notin> unwritable fs"
    and "test_lines (fn_header name) content" "\<not> test_lines (alias_line name) content"
  shows "reload_aliasExists fs profile name \<and>
         remove_alias_lines name content = collapse_blank content \<and>
         installReloadAlias h fs name True =
           (ReloadInstalled shell profile,
            fs\<lparr>files := (files fs)(profile \<mapsto> collapse_blank content @ reloadContent name profile (iso_time h))\<rparr>) \<and>
         test_lines (fn_header name) (collapse_blank content @ reloadContent name profile (iso_time h)) \<and>
         test_lines (alias_line name) (collapse_blank content @ reloadContent name profile (iso_time h))"
proof -
  have ex: "reload_aliasExists fs profile name"
    using assms by (simp add: reload_aliasExists_def readFile_def)
  have "line_start_matches (alias_line name) True content = 0"
    using assms(7) by (simp add: test_lines_def)
  then have "replace_all_lines (alias_line_rest name) True content = content"
    by (rule lsm_replace_id [rotated]) (auto simp add: alias_line_rest_def)
  then have rm: "remove_alias_lines name content = collapse_blank content"
    by (simp add: remove_alias_lines_def)
  have inst: "installReloadAlias h fs name True =
           (ReloadInstalled shell profile,
            fs\<lparr>files := (files fs)(profile \<mapsto> collapse_blank content @ reloadContent name profile (iso_time h))\<rparr>)"
    unfolding installReloadAlias_def assms(2)
    using ex assms(3,4,5)
    by (simp add: reload_removeExistingAlias_def readFile_def writeFile_def appendFile_def rm)
  have "0 < line_start_matches (fn_header name) True (collapse_blank content)"
    using lsm_collapse [OF assms(1)] assms(6) by (simp add: test_lines_def)
  then have f: "test_lines (fn_header name) (collapse_blank content @ reloadContent name profile (iso_time h))"
    unfolding test_lines_def
    by (rule lsm_extend [rotated 2]) (auto simp add: assms(1) fn_header_extend)
  have lt: "is_line_terminator nl" by (simp add: is_line_terminator_def nl_def)
  define A where "A = collapse_blank content @ ([nl] @ str ''# '' @ rule51 @ [nl] @ str ''# Shell Reload Alias - Added by @lvmk/quick-alias'' @ [nl] @
      str ''# Generated: '' @ iso_time h @ [nl] @ str ''# '' @ rule51 @ [nl])"
  define L where "L = str ''alias '' @ name @ str ''='' @ [34] @ str ''source '' @ profile @ [34] @ [nl]"
  have AL: "collapse_blank content @ reloadContent name profile (iso_time h) = A @ L"
    by (simp add: reloadContent_split A_def L_def)
  have "A \<noteq> []" "last A = nl" by (simp_all add: A_def)
  moreover have "alias_line name L \<noteq> None" "L \<noteq> []"
    unfolding L_def using alias_line_at [OF assms(1)] by (simp_all add: str_def)
  then have "0 < line_start_matches (alias_line name) True L" by (cases L) simp_all
  ultimately have "0 < line_start_matches (alias_line name) True (A @ L)"
    using lsm_append_ge [of "alias_line name" A True L] lt \<open>L \<noteq> []\<close> by simp
  then have a: "test_lines (alias_line name) (collapse_blank content @ reloadContent name profile (iso_time h))"
    by (simp add: test_lines_def AL)
  from ex rm inst f a show ?thesis by blast
qed

theorem reload_overwrite_keeps_function_witness:
  "word_name (str ''rl'') \<and>
   detectShellProfile zsh_host reload_function_fs = (Zsh, str ''/home/u/.zshrc'') \<and>
   files reload_function_fs (str ''/home/u/.zshrc'') = Some reload_function_profile \<and>
   test_lines (fn_header (str ''rl'')) reload_function_profile \<and>
   \<not> test_lines (alias_line (str ''rl'')) reload_function_profile \<and>
   test_lines (fn_header (str ''rl''))
     (collapse_blank reload_function_profile @ reloadContent (str ''rl'') (str ''/home/u/.zshrc'') (iso_time zsh_host)) \<and>
   test_lines (alias_line (str ''rl''))
     (collapse_blank reload_function_profile @ reloadContent (str ''rl'') (str ''/home/u/.zshrc'') (iso_time zsh_host))"
proof -
  have w: "word_name (str ''rl'')" by (simp add: word_name_def word_char_def str_def)
  have d: "detectShellProfile zsh_host reload_function_fs = (Zsh, str ''/home/u/.zshrc'')"
    by (simp add: detectShellProfile_def zsh_host_def js_includes_def sublist_code eval_path)
  have f: "files reload_function_fs (str ''/home/u/.zshrc'') = Some reload_function_profile"
    by (simp add: reload_function_fs_def)
  have r: "str ''/home/u/.zshrc'' \<notin> unreadable reload_function_fs"
    and u: "str ''/home/u/.zshrc'' \<notin> unwritable reload_function_fs"
    by (simp_all add: reload_function_fs_def)
  have t: "test_lines (fn_header (str ''rl'')) reload_function_profile"
    by (simp add: reload_function_profile_def eval_lines eval_text eval_patterns)
  have a: "\<not> test_lines (alias_line (str ''rl'')) reload_function_profile"
    by (simp add: reload_function_profile_def eval_lines eval_text eval_patterns)
  note th = reload_overwrite_keeps_function [OF w d f r u t a]
  from th have 1: "test_lines (fn_header (str ''rl''))
     (collapse_blank reload_function_profile @ reloadContent (str ''rl'') (str ''/home/u/.zshrc'') (iso_time zsh_host))"
    by (elim conjE)
  from th have 2: "test_lines (alias_line (str ''rl''))
     (collapse_blank reload_function_profile @ reloadContent (str ''rl'') (str ''/home/u/.zshrc'') (iso_time zsh_host))"
    by (elim conjE)
  from w d f t a 1 2 show ?thesis by (intro conjI)
qed




text \<open>The removal patterns have no line anchor: with blocks named \<open>gp\<close> and \<open>p\<close>,
  removing \<open>p\<close> also cuts the other block from its second letter on.\<close>

lemma removal_without_line_anchor:
  "remove_blocks (str ''p'') suffix_names_profile = str ''g''"
  by (simp add: suffix_names_profile_def eval_text eval_patterns)

lemma lsm_append_sum:
  assumes ext: "\<And>t z. m t \<noteq> None \<Longrightarrow> m (t @ z) \<noteq> None" and nil: "m [] = None"
  shows "line_start_matches m b xs +
           line_start_matches m (if xs = [] then b else is_line_terminator (last xs)) ys
         \<le> line_start_matches m b (xs @ ys)"
proof (induction xs arbitrary: b)
  case Nil
  show ?case using nil by simp
next
  case (Cons c cs)
  have h: "(if b \<and> m (c # cs) \<noteq> None then 1 else 0) \<le> (if b \<and> m ((c # cs) @ ys) \<noteq> None then 1 else (0::nat))"
    using ext [of "c # cs" ys] by auto
  from Cons.IH [of "is_line_terminator c"] h show ?case by (cases "cs = []") auto
qed

lemma join_lines_append:
  "ys \<noteq> [] \<Longrightarrow> join_lines (xs @ ys) = concat (map (\<lambda>l. l @ [nl]) xs) @ join_lines ys"
  by (simp add: join_lines_def butlast_append)

lemma generateGpAlias_split:
  "\<exists>A R. generateGpAlias n cli model = A @ n @ str ''() {'' @ R \<and> A \<noteq> [] \<and> last A = nl"
proof -
  let ?C = "concat (map (\<lambda>l. l @ [nl]) (gp_comment n cli model))"
  let ?rest = "gp_body cli (buildCLICommand cli model) @ [str ''}'']"
  have "generateGpAlias n cli model = ?C @ join_lines ((n @ str ''() {'') # ?rest)"
    unfolding generateGpAlias_def by (subst join_lines_append) simp_all
  also have "join_lines ((n @ str ''() {'') # ?rest) = (n @ str ''() {'') @ [nl] @ join_lines ?rest"
    using join_lines_append [of ?rest "[n @ str ''() {'']"] by simp
  finally have "generateGpAlias n cli model = ?C @ n @ str ''() {'' @ ([nl] @ join_lines ?rest)" by simp
  moreover have "?C \<noteq> []" "last ?C = nl" by (simp_all add: gp_comment_def)
  ultimately show ?thesis by blast
qed

lemma appended_block_matches:
  assumes "word_name gpAlias"
  shows "0 < line_start_matches (fn_header gpAlias) b (aliasContent gpAlias gcAlias cli model ts)"
proof -
  obtain A R where g: "generateGpAlias gpAlias cli model = A @ gpAlias @ str ''() {'' @ R"
    and A: "A \<noteq> []" "last A = nl"
    using generateGpAlias_split by blast
  define Pre where "Pre = [nl] @ str ''# '' @ rule51 @ [nl] @ str ''# AI Git Aliases - Added by @lvmk/git-alias'' @ [nl] @
       str ''# Provider: '' @ cli_name cli @ str '' | Model: '' @ model @ [nl] @
       str ''# Generated: '' @ ts @ [nl] @ str ''# '' @ rule51 @ [nl] @ [nl]"
  define Post where "Post = [nl] @ [nl] @ generateGcAlias gcAlias cli model @ [nl]"
  define H where "H = gpAlias @ str ''() {'' @ R @ Post"
  have "aliasContent gpAlias gcAlias cli model ts = Pre @ generateGpAlias gpAlias cli model @ Post"
    by (simp add: aliasContent_def join_lines_def Pre_def Post_def)
  moreover define Q where "Q = Pre @ A"
  ultimately have ac: "aliasContent gpAlias gcAlias cli model ts = Q @ H"
    by (simp add: g H_def)
  have Q: "Q \<noteq> []" "last Q = nl" using A by (simp_all add: Q_def)
  have "H = gpAlias @ [] @ lparen # [] @ rparen # [32] @ lbrace # (R @ Post)"
    by (simp add: H_def str_def lparen_def rparen_def lbrace_def)
  moreover have "\<forall>x\<in>set [32]. is_space x" by (simp add: is_space_def)
  ultimately have "fn_header gpAlias H = Some (R @ Post)"
    unfolding fn_header_Some_iff by (metis empty_iff list.set(1))
  moreover have "H \<noteq> []" using assms by (simp add: H_def word_name_def)
  ultimately have "0 < line_start_matches (fn_header gpAlias) True H" by (cases H) simp_all
  moreover have lt: "is_line_terminator nl" by (simp add: is_line_terminator_def nl_def)
  ultimately have "0 < line_start_matches (fn_header gpAlias) b (Q @ H)"
    using lsm_append_ge [of "fn_header gpAlias" Q b H] Q \<open>H \<noteq> []\<close> by simp
  then show ?thesis by (simp only: ac)
qed

text \<open>
  C2 (code defect). The profile holds a function for the name written on one line,
  \<open>gp() { git push; }\<close>. \<open>aliasExists\<close> finds it, so that the first install reports a
  conflict and changes nothing. The second install, with overwrite, calls the removal,
  which cuts nothing, the closing brace not being at the start of a line; the new block is
  appended after the old function, and the name now opens a function at two line starts.
\<close>

theorem overwrite_keeps_one_line_function:
  "aliasExists one_line_fs (str ''/home/u/.zshrc'') (str ''gp'') \<and>
   remove_blocks (str ''gp'') one_line_profile = one_line_profile \<and>
   installAliases zsh_host one_line_fs (str ''gp'') (str ''gc'') claude (str ''haiku'') False =
     (Conflict [str ''gp''] (str ''/home/u/.zshrc''), one_line_fs) \<and>
   fst (installAliases zsh_host one_line_fs (str ''gp'') (str ''gc'') claude (str ''haiku'') True) =
     Installed Zsh (str ''/home/u/.zshrc'') \<and>
   files (snd (installAliases zsh_host one_line_fs (str ''gp'') (str ''gc'') claude (str ''haiku'') True))
       (str ''/home/u/.zshrc'') =
     Some (one_line_profile @ aliasContent (str ''gp'') (str ''gc'') claude (str ''haiku'') (iso_time zsh_host)) \<and>
   2 \<le> line_start_matches (fn_header (str ''gp'')) True
         (one_line_profile @ aliasContent (str ''gp'') (str ''gc'') claude (str ''haiku'') (iso_time zsh_host))"
proof -
  let ?p = "str ''/home/u/.zshrc''"
  let ?T = "aliasContent (str ''gp'') (str ''gc'') claude (str ''haiku'') (iso_time zsh_host)"
  have w: "word_name (str ''gp'')" by (simp add: word_name_def word_char_def str_def)
  have d: "detectShellProfile zsh_host one_line_fs = (Zsh, ?p)"
    by (simp add: detectShellProfile_def zsh_host_def js_includes_def sublist_code eval_path)
  have f: "files one_line_fs ?p = Some one_line_profile" "?p \<notin> unreadable one_line_fs"
    "?p \<notin> unwritable one_line_fs"
    by (simp_all add: one_line_fs_def)
  have t: "test_lines (fn_header (str ''gp'')) one_line_profile"
    by (simp add: one_line_profile_def eval_lines eval_text eval_patterns)
  have tc: "\<not> test_lines (fn_header (str ''gc'')) one_line_profile"
    by (simp add: one_line_profile_def eval_lines eval_text eval_patterns)
  have gp: "aliasExists one_line_fs ?p (str ''gp'')" using f t by (simp add: aliasExists_def readFile_def)
  have gc: "\<not> aliasExists one_line_fs ?p (str ''gc'')" using f tc by (simp add: aliasExists_def readFile_def)
  have rm: "remove_blocks (str ''gp'') one_line_profile = one_line_profile"
    by (simp add: one_line_profile_def eval_text eval_patterns)
  have c: "installAliases zsh_host one_line_fs (str ''gp'') (str ''gc'') claude (str ''haiku'') False =
     (Conflict [str ''gp''] ?p, one_line_fs)"
    unfolding installAliases_def d using gp gc by simp
  have b: "one_line_profile = (case files one_line_fs ?p of
                   None \<Rightarrow> []
                 | Some c \<Rightarrow>
                     (if True \<and> aliasExists one_line_fs ?p (str ''gc'') then remove_blocks (str ''gc'') else id)
                       ((if True \<and> aliasExists one_line_fs ?p (str ''gp'') then remove_blocks (str ''gp'') else id) c))"
    using gp gc by (simp add: f rm)
  have o: "True \<or> \<not> (aliasExists one_line_fs ?p (str ''gp'') \<or> aliasExists one_line_fs ?p (str ''gc''))" by simp
  note i = installAliases_writes [OF d f(3) o refl b, of claude "str ''haiku''"]
  have lt: "is_line_terminator (last one_line_profile)" "one_line_profile \<noteq> []"
    by (simp_all add: one_line_profile_def is_line_terminator_def eval_text)
  have ext: "\<And>t z. fn_header (str ''gp'') t \<noteq> None \<Longrightarrow> fn_header (str ''gp'') (t @ z) \<noteq> None"
    using fn_header_extend [of "str ''gp''"] by fastforce
  have "line_start_matches (fn_header (str ''gp'')) True one_line_profile +
        line_start_matches (fn_header (str ''gp'')) (is_line_terminator (last one_line_profile)) ?T
        \<le> line_start_matches (fn_header (str ''gp'')) True (one_line_profile @ ?T)"
    using lsm_append_sum [of "fn_header (str ''gp'')" True one_line_profile ?T, OF ext fn_header_Nil [OF w]] lt(2)
    by simp
  moreover have "0 < line_start_matches (fn_header (str ''gp'')) True one_line_profile"
    using t by (simp add: test_lines_def)
  moreover have "0 < line_start_matches (fn_header (str ''gp'')) (is_line_terminator (last one_line_profile)) ?T"
    by (rule appended_block_matches [OF w])
  ultimately have two: "2 \<le> line_start_matches (fn_header (str ''gp'')) True (one_line_profile @ ?T)"
    by linarith
  from gp rm c i(1) i(2) two show ?thesis by (intro conjI)
qed

end
